theory Spec2Isabelle
  imports
    Main
    "HOL-Library.Sublist"
    "HOL-Library.Char_ord"
    "HOL-Library.List_Lexorder"
    "HOL-Library.Option_ord"
    "HOL-Library.Multiset"
begin

section \<open>Python values, exceptions and string formatting\<close>

text \<open>
  The program is \<^verbatim>\<open>create_rss_feed.py\<close> (Python 3). Strings are \<^typ>\<open>string\<close>; the
  exceptions the program can meet are the constructors of \<open>error\<close>, each with the
  message \<^verbatim>\<open>str(e)\<close> is built from. A computation that may raise returns
  \<open>error + 'a\<close>, with \<open>Inl\<close> for the exception.
\<close>

datatype error =
    KeyError string
  | TypeError string
  | ValueError string
  | RequestException string
  | Exception string

text \<open>\<^verbatim>\<open>str(e)\<close>: the message, and for a \<^verbatim>\<open>KeyError\<close> the \<^verbatim>\<open>repr\<close> of the key.\<close>

fun str_error :: "error \<Rightarrow> string" where
  "str_error (KeyError k) = [CHR 0x27] @ k @ [CHR 0x27]"
| "str_error (TypeError m) = m"
| "str_error (ValueError m) = m"
| "str_error (RequestException m) = m"
| "str_error (Exception m) = m"

definition bind :: "error + 'a \<Rightarrow> ('a \<Rightarrow> error + 'b) \<Rightarrow> error + 'b" where
  "bind m f = (case m of Inl e \<Rightarrow> Inl e | Inr x \<Rightarrow> f x)"

text \<open>
  \<^verbatim>\<open>fmt % args\<close> for the conversions the program uses (\<^verbatim>\<open>%s\<close>, \<^verbatim>\<open>%i\<close>, and
  \<^verbatim>\<open>%%\<close>), the arguments already rendered by \<^verbatim>\<open>str\<close>. A right operand that is
  not a tuple is the one-element argument list. Python raises \<^verbatim>\<open>TypeError\<close> when a
  conversion finds no argument left, and when arguments are left at the end.
\<close>

fun percent_format :: "string \<Rightarrow> string list \<Rightarrow> error + string" where
  "percent_format [] [] = Inr []"
| "percent_format [] (a # as) =
     Inl (TypeError ''not all arguments converted during string formatting'')"
| "percent_format [c] args =
     (if c = CHR ''%'' then Inl (ValueError ''incomplete format'')
      else bind (percent_format [] args) (\<lambda>r. Inr (c # r)))"
| "percent_format (c # k # fmt) args =
     (if c = CHR ''%'' then
        (if k = CHR ''%'' then bind (percent_format fmt args) (\<lambda>r. Inr (CHR ''%'' # r))
         else if k = CHR ''s'' \<or> k = CHR ''i'' then
           (case args of
              [] \<Rightarrow> Inl (TypeError ''not enough arguments for format string'')
            | a # as \<Rightarrow> bind (percent_format fmt as) (\<lambda>r. Inr (a @ r)))
         else Inl (ValueError ''unsupported format character''))
      else bind (percent_format (k # fmt) args) (\<lambda>r. Inr (c # r)))"

section \<open>Configuration: \<^verbatim>\<open>load_config\<close>\<close>

text \<open>
  \<^verbatim>\<open>os.environ\<close> and the parsed \<^verbatim>\<open>config.json\<close> (a JSON object whose values are
  strings) are maps from names to strings; the file is taken as read and parsed. \<^verbatim>\<open>config_file[k]\<close> raises
  \<^verbatim>\<open>KeyError\<close> on a missing key; \<^verbatim>\<open>os.getenv(k, default)\<close> is the variable's
  value when the variable is set (an empty value included) and the default otherwise.
\<close>

type_synonym environ = "string \<rightharpoonup> string"

definition getitem :: "(string \<rightharpoonup> 'a) \<Rightarrow> string \<Rightarrow> error + 'a" where
  "getitem d k = (case d k of None \<Rightarrow> Inl (KeyError k) | Some v \<Rightarrow> Inr v)"

definition getenv :: "environ \<Rightarrow> string \<Rightarrow> string \<Rightarrow> string" where
  "getenv env k dflt = (case env k of None \<Rightarrow> dflt | Some v \<Rightarrow> v)"

text \<open>
  One line of the merge, \<^verbatim>\<open>os.getenv(k, config_file[k])\<close>: Python evaluates the
  argument \<^verbatim>\<open>config_file[k]\<close> first, so a key missing from the file raises even
  when the variable is set.
\<close>

definition resolve :: "environ \<Rightarrow> (string \<rightharpoonup> string) \<Rightarrow> string \<Rightarrow> error + string" where
  "resolve env config_file k = bind (getitem config_file k) (\<lambda>d. Inr (getenv env k d))"

text \<open>
  The check of the mandatory parameters iterates over \<^verbatim>\<open>config.values()\<close> in insertion
  order. On the first value with \<^verbatim>\<open>len(str(value)) == 0\<close> it evaluates
  \<^verbatim>\<open>'Incorrect configuration for %s : %s' % value\<close> to build the exception.
\<close>

fun check_values :: "string list \<Rightarrow> error + unit" where
  "check_values [] = Inr ()"
| "check_values (v # rest) =
     (if length v = 0 then
        bind (percent_format ''Incorrect configuration for %s : %s'' [v])
          (\<lambda>msg. Inl (Exception msg))
      else check_values rest)"

definition config_keys :: "string list" where
  "config_keys = [''START_URL'', ''OUTPUT_FILE'', ''PROGRAM_TITLE'', ''PROGRAM_URL'', ''PROGRAM_DESC'']"

text \<open>The configuration is a dict in insertion order: an association list.\<close>

definition load_config :: "environ \<Rightarrow> (string \<rightharpoonup> string) \<Rightarrow> error + (string \<times> string) list" where
  "load_config env config_file =
     bind (resolve env config_file ''START_URL'') (\<lambda>v1.
     bind (resolve env config_file ''OUTPUT_FILE'') (\<lambda>v2.
     bind (resolve env config_file ''PROGRAM_TITLE'') (\<lambda>v3.
     bind (resolve env config_file ''PROGRAM_URL'') (\<lambda>v4.
     bind (resolve env config_file ''PROGRAM_DESC'') (\<lambda>v5.
       let config = [(''START_URL'', v1), (''OUTPUT_FILE'', v2), (''PROGRAM_TITLE'', v3),
                     (''PROGRAM_URL'', v4), (''PROGRAM_DESC'', v5)]
       in bind (check_values (map snd config)) (\<lambda>_. Inr config))))))"

section \<open>Regular expressions\<close>

text \<open>
  The two patterns of \<^verbatim>\<open>get_programs\<close> use literals, \<^verbatim>\<open>.\<close>, \<^verbatim>\<open>\d\<close>, \<^verbatim>\<open>*\<close>,
  concatenation and a final \<^verbatim>\<open>$\<close>. They are values of \<open>rexp\<close>, matched by
  derivatives; \<open>lang\<close> is the set of words a pattern denotes, against which the matcher
  is proved correct below. Characters are bytes: \<^verbatim>\<open>\d\<close> is an ASCII digit.
\<close>

datatype rexp =
    Zero
  | One
  | Sym "char \<Rightarrow> bool"
  | Plus rexp rexp
  | Times rexp rexp
  | Star rexp

fun nullable :: "rexp \<Rightarrow> bool" where
  "nullable Zero = False"
| "nullable One = True"
| "nullable (Sym P) = False"
| "nullable (Plus r s) = (nullable r \<or> nullable s)"
| "nullable (Times r s) = (nullable r \<and> nullable s)"
| "nullable (Star r) = True"

fun deriv :: "char \<Rightarrow> rexp \<Rightarrow> rexp" where
  "deriv c Zero = Zero"
| "deriv c One = Zero"
| "deriv c (Sym P) = (if P c then One else Zero)"
| "deriv c (Plus r s) = Plus (deriv c r) (deriv c s)"
| "deriv c (Times r s) =
     (if nullable r then Plus (Times (deriv c r) s) (deriv c s) else Times (deriv c r) s)"
| "deriv c (Star r) = Times (deriv c r) (Star r)"

fun matches :: "rexp \<Rightarrow> string \<Rightarrow> bool" where
  "matches r [] = nullable r"
| "matches r (c # cs) = matches (deriv c r) cs"

definition conc :: "string set \<Rightarrow> string set \<Rightarrow> string set" where
  "conc A B = {u @ v | u v. u \<in> A \<and> v \<in> B}"

inductive_set star :: "string set \<Rightarrow> string set" for A :: "string set" where
  star_empty: "[] \<in> star A"
| star_app: "u \<in> A \<Longrightarrow> v \<in> star A \<Longrightarrow> u @ v \<in> star A"

fun lang :: "rexp \<Rightarrow> string set" where
  "lang Zero = {}"
| "lang One = {[]}"
| "lang (Sym P) = {[c] | c. P c}"
| "lang (Plus r s) = lang r \<union> lang s"
| "lang (Times r s) = conc (lang r) (lang s)"
| "lang (Star r) = star (lang r)"

definition newline :: char where
  "newline = CHR 0x0A"

definition is_digit :: "char \<Rightarrow> bool" where
  "is_digit c \<longleftrightarrow> CHR ''0'' \<le> c \<and> c \<le> CHR ''9''"

text \<open>
  The atoms: any character, \<^verbatim>\<open>.\<close> (any character but a newline), a literal, a
  letter under \<^verbatim>\<open>re.IGNORECASE\<close> (either case), \<^verbatim>\<open>\d\<close>, and \<^verbatim>\<open>$\<close> as the last
  atom of a pattern (the end of the string, or just before a newline that ends it).
\<close>

definition any_char :: rexp where
  "any_char = Sym (\<lambda>c. True)"

definition dot :: rexp where
  "dot = Sym (\<lambda>c. c \<noteq> newline)"

definition lit :: "char \<Rightarrow> rexp" where
  "lit a = Sym (\<lambda>c. c = a)"

definition lit_ignorecase :: "char \<Rightarrow> char \<Rightarrow> rexp" where
  "lit_ignorecase a b = Sym (\<lambda>c. c = a \<or> c = b)"

definition digit :: rexp where
  "digit = Sym is_digit"

definition dollar :: rexp where
  "dollar = Plus One (lit newline)"

fun seq :: "rexp list \<Rightarrow> rexp" where
  "seq [] = One"
| "seq (r # rs) = Times r (seq rs)"

text \<open>
  \<^verbatim>\<open>pattern.search(s)\<close> as a truth value, for a pattern that ends in \<^verbatim>\<open>$\<close>: the match
  may start anywhere and runs to the end of the string.
\<close>

definition re_search :: "rexp \<Rightarrow> string \<Rightarrow> bool" where
  "re_search r s = matches (Times (Star any_char) r) s"

text \<open>\<^verbatim>\<open>link_regex = re.compile('.*mp3$')\<close>\<close>

definition link_regex :: rexp where
  "link_regex = seq [Star dot, lit CHR ''m'', lit CHR ''p'', lit CHR ''3'', dollar]"

text \<open>\<^verbatim>\<open>date_pattern = '.*_(\d{4})_(\d{2})_(\d{2})\.mp3$'\<close>, used with \<^verbatim>\<open>re.IGNORECASE\<close>\<close>

definition date_pattern :: rexp where
  "date_pattern = seq [Star dot, lit CHR ''_'', digit, digit, digit, digit,
     lit CHR ''_'', digit, digit, lit CHR ''_'', digit, digit, lit CHR ''.'',
     lit_ignorecase CHR ''m'' CHR ''M'', lit_ignorecase CHR ''p'' CHR ''P'', lit CHR ''3'', dollar]"

text \<open>The fifteen atoms of \<open>date_pattern\<close> after \<^verbatim>\<open>.*\<close>, as predicates on characters.\<close>

definition date_syms :: "(char \<Rightarrow> bool) list" where
  "date_syms = [(\<lambda>c. c = CHR ''_''), is_digit, is_digit, is_digit, is_digit,
     (\<lambda>c. c = CHR ''_''), is_digit, is_digit, (\<lambda>c. c = CHR ''_''), is_digit, is_digit,
     (\<lambda>c. c = CHR ''.''), (\<lambda>c. c = CHR ''m'' \<or> c = CHR ''M''),
     (\<lambda>c. c = CHR ''p'' \<or> c = CHR ''P''), (\<lambda>c. c = CHR ''3'')]"

text \<open>
  The three groups of a match of \<open>date_pattern\<close>. The pattern is anchored at the end
  and everything after \<^verbatim>\<open>.*\<close> has a fixed width of 15 characters, so the groups are
  the characters 1 to 4, 6 to 7 and 9 to 10 of the last 15 (before the final newline,
  if there is one).
\<close>

definition strip_newline :: "string \<Rightarrow> string" where
  "strip_newline s = (if s \<noteq> [] \<and> last s = newline then butlast s else s)"

definition date_groups :: "string \<Rightarrow> string list" where
  "date_groups s =
     (let t = strip_newline s; cs = drop (length t - 15) t
      in [take 4 (drop 1 cs), take 2 (drop 6 cs), take 2 (drop 9 cs)])"

definition date_search :: "string \<Rightarrow> string list option" where
  "date_search s = (if re_search date_pattern s then Some (date_groups s) else None)"

text \<open>\<^verbatim>\<open>sep.join(parts)\<close>\<close>

fun join :: "string \<Rightarrow> string list \<Rightarrow> string" where
  "join sep [] = []"
| "join sep [x] = x"
| "join sep (x # y # ys) = x @ sep @ join sep (y # ys)"

section \<open>Pages, the network and the log\<close>

text \<open>
  A page parsed by BeautifulSoup is the list of its elements in document order, each with
  its tag name, its attributes and its text content. \<^verbatim>\<open>find_all(name, attr=v)\<close> keeps
  the elements of that name whose attribute passes the filter; \<^verbatim>\<open>find\<close> is the first
  of them.
\<close>

record element =
  el_name :: string
  el_attrs :: "string \<rightharpoonup> string"
  el_text :: string

definition find_all :: "element list \<Rightarrow> string \<Rightarrow> (element \<Rightarrow> bool) \<Rightarrow> element list" where
  "find_all soup name flt = filter (\<lambda>e. el_name e = name \<and> flt e) soup"

definition attr_equals :: "string \<Rightarrow> string \<Rightarrow> element \<Rightarrow> bool" where
  "attr_equals k v e = (el_attrs e k = Some v)"

definition attr_search :: "string \<Rightarrow> rexp \<Rightarrow> element \<Rightarrow> bool" where
  "attr_search k r e = (case el_attrs e k of None \<Rightarrow> False | Some v \<Rightarrow> re_search r v)"

text \<open>
  What the program takes from outside: \<open>http_get\<close> is \<^verbatim>\<open>requests.get\<close> followed by
  the parse of the body (\<open>Inl\<close> when the request raises), \<open>urljoin\<close> is
  \<^verbatim>\<open>urllib.parse.urljoin\<close> and \<open>fix_encoding\<close> is \<^verbatim>\<open>ftfy.fix_encoding\<close>.
\<close>

record world =
  http_get :: "string \<Rightarrow> error + element list"
  urljoin :: "string \<Rightarrow> string \<Rightarrow> string"
  fix_encoding :: "string \<Rightarrow> string"

text \<open>
  The trace of a run: the requests sent and the calls of the logger, in order.
\<close>

datatype level = INFO | WARNING | CRITICAL

datatype event = Request string | Log level string

section \<open>The extractor: \<^verbatim>\<open>get_programs\<close>\<close>

record program =
  title :: string
  description :: string
  link :: string
  date :: "string option"

definition program_page :: string where
  "program_page = ''detail_emission.php''"

definition title_id :: string where
  "title_id = ''titre''"

definition program_id :: string where
  "program_id = ''emission''"

text \<open>
  The title, description and link of a detail page. Each field keeps its initial empty
  value unless \<^verbatim>\<open>find_all\<close> finds an element; \<^verbatim>\<open>.attrs['href']\<close> is a dict lookup.
\<close>

definition extract_program :: "world \<Rightarrow> element list \<Rightarrow> string \<Rightarrow> error + program" where
  "extract_program w soup_page page_url =
     (let program = \<lparr>title = [], description = [], link = [], date = None\<rparr>;
          program = (case find_all soup_page ''div'' (attr_equals ''id'' title_id) of
                       [] \<Rightarrow> program
                     | e # _ \<Rightarrow> program\<lparr>title := fix_encoding w (el_text e)\<rparr>);
          program = (case find_all soup_page ''div'' (attr_equals ''id'' program_id) of
                       [] \<Rightarrow> program
                     | e # _ \<Rightarrow> program\<lparr>description := fix_encoding w (el_text e)\<rparr>)
      in case find_all soup_page ''a'' (attr_search ''href'' link_regex) of
           [] \<Rightarrow> Inr program
         | e # _ \<Rightarrow> bind (getitem (el_attrs e) ''href'')
                      (\<lambda>href. Inr (program\<lparr>link := urljoin w page_url href\<rparr>)))"

definition incomplete :: "program \<Rightarrow> bool" where
  "incomplete p \<longleftrightarrow> length (title p) = 0 \<or> length (description p) = 0 \<or> length (link p) = 0"

definition cannot_find :: "program \<Rightarrow> string \<Rightarrow> event" where
  "cannot_find p page_url =
     Log WARNING (''Cannot find all data for '' @ title p @ '' ('' @ page_url @ '')'')"

definition cannot_date :: "program \<Rightarrow> string \<Rightarrow> event" where
  "cannot_date p page_url =
     Log WARNING (''Cannot determine date of '' @ title p @ '' ('' @ page_url @ '')'')"

text \<open>
  The completeness check and the date of one extracted record: the list of programs and
  the trace after it.
\<close>

definition keep_program :: "program \<Rightarrow> string \<Rightarrow> program list \<Rightarrow> event list
    \<Rightarrow> program list \<times> event list" where
  "keep_program p page_url programs tr =
     (if incomplete p then (programs, tr @ [cannot_find p page_url])
      else (case date_search (link p) of
              Some groups \<Rightarrow> (programs @ [p\<lparr>date := Some (join ''-'' groups)\<rparr>], tr)
            | None \<Rightarrow> (programs @ [p], tr @ [cannot_date p page_url])))"

text \<open>The body of the loop over the anchors of the listing page, for one anchor.\<close>

definition page_step :: "world \<Rightarrow> string \<Rightarrow> element \<Rightarrow> program list \<Rightarrow> event list
    \<Rightarrow> (error + program list) \<times> event list" where
  "page_step w url page_link programs tr =
     (case getitem (el_attrs page_link) ''href'' of
        Inl e \<Rightarrow> (Inl e, tr)
      | Inr href \<Rightarrow>
          (let page_url = urljoin w url href in
           if sublist program_page page_url then
             (let tr1 = tr @ [Log INFO (''Parsing '' @ page_url), Request page_url] in
              case http_get w page_url of
                Inl e \<Rightarrow> (Inl e, tr1)
              | Inr soup_page \<Rightarrow>
                  (case extract_program w soup_page page_url of
                     Inl e \<Rightarrow> (Inl e, tr1)
                   | Inr p \<Rightarrow>
                       (case keep_program p page_url programs tr1 of
                          (programs', tr2) \<Rightarrow> (Inr programs', tr2))))
           else (Inr programs, tr)))"

fun page_links_loop :: "world \<Rightarrow> string \<Rightarrow> element list \<Rightarrow> program list \<Rightarrow> event list
    \<Rightarrow> (error + program list) \<times> event list" where
  "page_links_loop w url [] programs tr = (Inr programs, tr)"
| "page_links_loop w url (page_link # rest) programs tr =
     (case page_step w url page_link programs tr of
        (Inl e, tr') \<Rightarrow> (Inl e, tr')
      | (Inr programs', tr') \<Rightarrow> page_links_loop w url rest programs' tr')"

text \<open>
  \<^verbatim>\<open>sorted(programs, key=lambda p: p['date'], reverse=True)\<close>. The sort is stable,
  also under \<^verbatim>\<open>reverse=True\<close>. Python 3 orders neither \<^verbatim>\<open>None\<close> with a string nor
  \<^verbatim>\<open>None\<close> with \<^verbatim>\<open>None\<close>: a list of two or more records, one of them undated,
  raises \<^verbatim>\<open>TypeError\<close> at the first comparison that meets the \<^verbatim>\<open>None\<close> (the message
  names the two types compared).
\<close>

definition sorted_programs :: "program list \<Rightarrow> error + program list" where
  "sorted_programs programs =
     (if 2 \<le> length programs \<and> list_ex (\<lambda>p. date p = None) programs
      then Inl (TypeError ([CHR 0x27] @ ''<'' @ [CHR 0x27] @ '' not supported between instances''))
      else Inr (rev (sort_key date (rev programs))))"

text \<open>\<^verbatim>\<open>'%i' % n\<close> for a natural number: its decimal digits.\<close>

definition digit_char :: "nat \<Rightarrow> char" where
  "digit_char n = ''0123456789'' ! n"

fun decimal :: "nat \<Rightarrow> string" where
  "decimal n = (if n < 10 then [digit_char n] else decimal (n div 10) @ [digit_char (n mod 10)])"

definition get_programs :: "world \<Rightarrow> string \<Rightarrow> (error + program list) \<times> event list" where
  "get_programs w url =
     (let tr = [Request url] in
      case http_get w url of
        Inl e \<Rightarrow> (Inl e, tr)
      | Inr soup_main \<Rightarrow>
          (case page_links_loop w url (find_all soup_main ''a'' (\<lambda>e. True)) [] tr of
             (Inl e, tr') \<Rightarrow> (Inl e, tr')
           | (Inr programs, tr') \<Rightarrow>
               (sorted_programs programs,
                tr' @ [Log INFO (decimal (length programs) @ '' programs fetched'')])))"

section \<open>The serializer: \<^verbatim>\<open>build_rss_feed\<close>\<close>

text \<open>
  A naive \<^verbatim>\<open>datetime\<close> (no time zone). \<^verbatim>\<open>datetime.strptime(s, '%Y-%m-%d')\<close> matches
  the regular expression the format compiles to,
  \<^verbatim>\<open>(?P<Y>\d\d\d\d)-(?P<m>1[0-2]|0[1-9]|[1-9])-(?P<d>3[0-1]|[1-2]\d|0[1-9]|[1-9]| [1-9])\<close>,
  at the start of the string, refuses a string with characters left over, and builds
  the date, which refuses the year 0 and a day the month does not have (the messages
  are those of CPython's \<^verbatim>\<open>datetime\<close>). The time of day is 00:00:00. An argument
  that is \<^verbatim>\<open>None\<close> raises \<^verbatim>\<open>TypeError\<close>.
\<close>

record datetime =
  dt_year :: nat
  dt_month :: nat
  dt_day :: nat
  dt_hour :: nat
  dt_minute :: nat
  dt_second :: nat

definition digit_val :: "char \<Rightarrow> nat" where
  "digit_val c = of_char c - 48"

fun parse_year :: "string \<Rightarrow> (nat \<times> string) option" where
  "parse_year (a # b # c # d # rest) =
     (if is_digit a \<and> is_digit b \<and> is_digit c \<and> is_digit d
      then Some (1000 * digit_val a + 100 * digit_val b + 10 * digit_val c + digit_val d, rest)
      else None)"
| "parse_year _ = None"

definition in_range :: "char \<Rightarrow> char \<Rightarrow> char \<Rightarrow> bool" where
  "in_range lo hi c \<longleftrightarrow> lo \<le> c \<and> c \<le> hi"

fun parse_month :: "string \<Rightarrow> (nat \<times> string) option" where
  "parse_month [] = None"
| "parse_month [a] = (if in_range CHR ''1'' CHR ''9'' a then Some (digit_val a, []) else None)"
| "parse_month (a # b # rest) =
     (if a = CHR ''1'' \<and> in_range CHR ''0'' CHR ''2'' b then Some (10 + digit_val b, rest)
      else if a = CHR ''0'' \<and> in_range CHR ''1'' CHR ''9'' b then Some (digit_val b, rest)
      else if in_range CHR ''1'' CHR ''9'' a then Some (digit_val a, b # rest)
      else None)"

fun parse_day :: "string \<Rightarrow> (nat \<times> string) option" where
  "parse_day [] = None"
| "parse_day [a] = (if in_range CHR ''1'' CHR ''9'' a then Some (digit_val a, []) else None)"
| "parse_day (a # b # rest) =
     (if a = CHR ''3'' \<and> in_range CHR ''0'' CHR ''1'' b then Some (30 + digit_val b, rest)
      else if in_range CHR ''1'' CHR ''2'' a \<and> is_digit b then Some (10 * digit_val a + digit_val b, rest)
      else if a = CHR ''0'' \<and> in_range CHR ''1'' CHR ''9'' b then Some (digit_val b, rest)
      else if in_range CHR ''1'' CHR ''9'' a then Some (digit_val a, b # rest)
      else if a = CHR '' '' \<and> in_range CHR ''1'' CHR ''9'' b then Some (digit_val b, rest)
      else None)"

fun parse_dash :: "string \<Rightarrow> string option" where
  "parse_dash (c # rest) = (if c = CHR ''-'' then Some rest else None)"
| "parse_dash [] = None"

text \<open>The match of the format's regular expression: year, month, day and what is left.\<close>

definition match_ymd :: "string \<Rightarrow> (nat \<times> nat \<times> nat \<times> string) option" where
  "match_ymd s =
     (case parse_year s of None \<Rightarrow> None | Some (y, s1) \<Rightarrow>
      case parse_dash s1 of None \<Rightarrow> None | Some s2 \<Rightarrow>
      case parse_month s2 of None \<Rightarrow> None | Some (m, s3) \<Rightarrow>
      case parse_dash s3 of None \<Rightarrow> None | Some s4 \<Rightarrow>
      case parse_day s4 of None \<Rightarrow> None | Some (d, s5) \<Rightarrow> Some (y, m, d, s5))"

definition leap_year :: "nat \<Rightarrow> bool" where
  "leap_year y \<longleftrightarrow> y mod 4 = 0 \<and> (y mod 100 \<noteq> 0 \<or> y mod 400 = 0)"

definition days_in_month :: "nat \<Rightarrow> nat \<Rightarrow> nat" where
  "days_in_month y m =
     (if m = 2 then (if leap_year y then 29 else 28)
      else if m = 4 \<or> m = 6 \<or> m = 9 \<or> m = 11 then 30 else 31)"

definition repr :: "string \<Rightarrow> string" where
  "repr s = [CHR 0x27] @ s @ [CHR 0x27]"

definition strptime :: "string option \<Rightarrow> error + datetime" where
  "strptime data =
     (case data of
        None \<Rightarrow> Inl (TypeError ''strptime() argument 1 must be str, not None'')
      | Some s \<Rightarrow>
          (case match_ymd s of
             None \<Rightarrow> Inl (ValueError (''time data '' @ repr s @ '' does not match format ''
                                        @ repr ''%Y-%m-%d''))
           | Some (y, m, d, rest) \<Rightarrow>
               if rest \<noteq> [] then Inl (ValueError (''unconverted data remains: '' @ rest))
               else if y < 1 then Inl (ValueError (''year '' @ decimal y @ '' is out of range''))
               else if days_in_month y m < d then Inl (ValueError ''day is out of range for month'')
               else Inr \<lparr>dt_year = y, dt_month = m, dt_day = d,
                         dt_hour = 0, dt_minute = 0, dt_second = 0\<rparr>))"

text \<open>
  \<^verbatim>\<open>PyRSS2Gen.RSSItem\<close> and \<^verbatim>\<open>PyRSS2Gen.RSS2\<close>, with the fields the program sets.
  The file system maps a path to the feed \<^verbatim>\<open>write_xml\<close> wrote there; opening a file
  for writing is taken to succeed, and replaces what the path held.
\<close>

record rss_item =
  item_title :: string
  item_link :: string
  item_description :: string
  item_guid :: string
  item_pubDate :: datetime

record rss2 =
  rss_title :: string
  rss_link :: string
  rss_description :: string
  rss_lastBuildDate :: datetime
  rss_items :: "rss_item list"

type_synonym filesystem = "string \<rightharpoonup> rss2"

fun rss_items_loop :: "program list \<Rightarrow> rss_item list \<Rightarrow> error + rss_item list" where
  "rss_items_loop [] acc = Inr acc"
| "rss_items_loop (item # rest) acc =
     bind (strptime (date item)) (\<lambda>item_date.
       rss_items_loop rest
         (acc @ [\<lparr>item_title = title item, item_link = link item,
                   item_description = description item, item_guid = link item,
                   item_pubDate = item_date\<rparr>]))"

text \<open>\<open>now\<close> is the value of \<^verbatim>\<open>datetime.datetime.now()\<close>.\<close>

definition build_rss_feed :: "string \<Rightarrow> string \<Rightarrow> string \<Rightarrow> program list \<Rightarrow> string
    \<Rightarrow> datetime \<Rightarrow> filesystem \<Rightarrow> error + filesystem" where
  "build_rss_feed feed_title feed_link feed_description feed_items filename now fs =
     bind (rss_items_loop feed_items []) (\<lambda>items.
       Inr (fs(filename \<mapsto> \<lparr>rss_title = feed_title, rss_link = feed_link,
                               rss_description = feed_description,
                               rss_lastBuildDate = now, rss_items = items\<rparr>)))"

section \<open>The entry point: \<^verbatim>\<open>main\<close>\<close>

text \<open>
  What a run leaves: the files, the trace, and the exit status of the process. \<^verbatim>\<open>main\<close>
  catches every \<^verbatim>\<open>Exception\<close>, logs it and returns; nothing calls \<^verbatim>\<open>sys.exit\<close>, so
  the interpreter ends with status 0.
\<close>

record outcome =
  out_files :: filesystem
  out_trace :: "event list"
  exit_status :: nat

definition critical :: "error \<Rightarrow> filesystem \<Rightarrow> event list \<Rightarrow> outcome" where
  "critical e fs tr =
     \<lparr>out_files = fs,
      out_trace = tr @ [Log CRITICAL (''Error occurred during process : '' @ str_error e)],
      exit_status = 0\<rparr>"

definition main :: "environ \<Rightarrow> (string \<rightharpoonup> string) \<Rightarrow> world \<Rightarrow> datetime \<Rightarrow> filesystem \<Rightarrow> outcome" where
  "main env config_file w now fs =
     (case load_config env config_file of
        Inl e \<Rightarrow> critical e fs []
      | Inr config \<Rightarrow>
          (case getitem (map_of config) ''START_URL'' of
             Inl e \<Rightarrow> critical e fs []
           | Inr start_url \<Rightarrow>
               (case get_programs w start_url of
                  (Inl e, tr) \<Rightarrow> critical e fs tr
                | (Inr program_list, tr) \<Rightarrow>
                    (case bind (getitem (map_of config) ''PROGRAM_TITLE'') (\<lambda>t.
                           bind (getitem (map_of config) ''PROGRAM_URL'') (\<lambda>u.
                           bind (getitem (map_of config) ''PROGRAM_DESC'') (\<lambda>d.
                           bind (getitem (map_of config) ''OUTPUT_FILE'') (\<lambda>f.
                             build_rss_feed t u d program_list f now fs)))) of
                       Inl e \<Rightarrow> critical e fs tr
                     | Inr fs' \<Rightarrow> \<lparr>out_files = fs', out_trace = tr, exit_status = 0\<rparr>))))"

section \<open>Dates as strings\<close>

text \<open>
  The vocabulary for statements about dates. A string has the form
  \<^verbatim>\<open>YYYY-MM-DD\<close> when it is four digits, a dash, two digits, a dash and two digits; its
  year, month and day are the numbers those digits write. It is a calendar date when
  the year is at least 1, the month is between 1 and 12 and the day is one the month
  has. \<open>midnight\<close> is that day at 00:00:00.
\<close>

definition ymd_string :: "string \<Rightarrow> bool" where
  "ymd_string s \<longleftrightarrow>
     list_all2 (\<lambda>P c. P c)
       [is_digit, is_digit, is_digit, is_digit, (\<lambda>c. c = CHR ''-''),
        is_digit, is_digit, (\<lambda>c. c = CHR ''-''), is_digit, is_digit] s"

definition number :: "string \<Rightarrow> nat" where
  "number s = foldl (\<lambda>n c. 10 * n + digit_val c) 0 s"

definition ymd_year :: "string \<Rightarrow> nat" where
  "ymd_year s = number (take 4 s)"

definition ymd_month :: "string \<Rightarrow> nat" where
  "ymd_month s = number (take 2 (drop 5 s))"

definition ymd_day :: "string \<Rightarrow> nat" where
  "ymd_day s = number (take 2 (drop 8 s))"

definition calendar_date :: "string \<Rightarrow> bool" where
  "calendar_date s \<longleftrightarrow>
     ymd_string s \<and> 1 \<le> ymd_year s \<and> 1 \<le> ymd_month s \<and> ymd_month s \<le> 12 \<and>
     1 \<le> ymd_day s \<and> ymd_day s \<le> days_in_month (ymd_year s) (ymd_month s)"

definition midnight :: "string \<Rightarrow> datetime" where
  "midnight s = \<lparr>dt_year = ymd_year s, dt_month = ymd_month s, dt_day = ymd_day s,
                  dt_hour = 0, dt_minute = 0, dt_second = 0\<rparr>"

text \<open>Chronological order on strings of the form \<^verbatim>\<open>YYYY-MM-DD\<close>.\<close>

definition earlier :: "string \<Rightarrow> string \<Rightarrow> bool" where
  "earlier s t \<longleftrightarrow>
     ymd_year s < ymd_year t \<or>
     ymd_year s = ymd_year t \<and>
       (ymd_month s < ymd_month t \<or> ymd_month s = ymd_month t \<and> ymd_day s < ymd_day t)"

section \<open>Sample inputs\<close>

text \<open>Concrete inputs, for the instances the theorems below are applied to.\<close>

definition sample_config :: "string \<rightharpoonup> string" where
  "sample_config = [''START_URL'' \<mapsto> ''http://example.org/liste.php'', ''OUTPUT_FILE'' \<mapsto> ''feed.xml'',
     ''PROGRAM_TITLE'' \<mapsto> ''T'', ''PROGRAM_URL'' \<mapsto> ''http://example.org/'', ''PROGRAM_DESC'' \<mapsto> ''D'']"

definition anchor :: "string \<Rightarrow> element" where
  "anchor href = \<lparr>el_name = ''a'', el_attrs = [''href'' \<mapsto> href], el_text = []\<rparr>"

definition div_id :: "string \<Rightarrow> string \<Rightarrow> element" where
  "div_id i t = \<lparr>el_name = ''div'', el_attrs = [''id'' \<mapsto> i], el_text = t\<rparr>"

definition detail_url :: "string \<Rightarrow> string" where
  "detail_url n = ''http://example.org/detail_emission.php?id='' @ n"

definition audio_url :: "string \<Rightarrow> string" where
  "audio_url f = ''http://example.org/audio/'' @ f"

definition sample_page :: "string \<Rightarrow> element list" where
  "sample_page f = [div_id ''titre'' ''Episode'', div_id ''emission'' ''About the episode'',
                    anchor (audio_url f)]"

definition page_no_description :: "string \<Rightarrow> element list" where
  "page_no_description f = [div_id ''titre'' ''Episode'', anchor (audio_url f)]"

definition sample_world :: "element list \<Rightarrow> world" where
  "sample_world listing =
     \<lparr>http_get = (\<lambda>u. if u = ''http://example.org/liste.php'' then Inr listing
                     else if u = detail_url ''1'' then Inr (sample_page ''mrx_2023_07_04.mp3'')
                     else if u = detail_url ''2'' then Inr (page_no_description ''mrx_2023_01_01.mp3'')
                     else if u = detail_url ''3'' then Inr (sample_page ''mrx_2022_12_25.MP3'')
                     else if u = detail_url ''4'' then Inr (sample_page ''mrx_invalid.mp3'')
                     else Inl (RequestException ''connection refused'')),
      urljoin = (\<lambda>base href. href),
      fix_encoding = (\<lambda>s. s)\<rparr>"

definition sample_program :: "string \<Rightarrow> program" where
  "sample_program f = \<lparr>title = ''Episode'', description = ''About the episode'',
                        link = audio_url f, date = None\<rparr>"

definition bare_anchor :: element where
  "bare_anchor = \<lparr>el_name = ''a'', el_attrs = Map.empty, el_text = ''top''\<rparr>"

definition sample_now :: datetime where
  "sample_now = \<lparr>dt_year = 2026, dt_month = 11, dt_day = 4, dt_hour = 12, dt_minute = 0, dt_second = 0\<rparr>"

definition listing_url :: string where
  "listing_url = ''http://example.org/liste.php''"

definition dated_program :: "string \<Rightarrow> string \<Rightarrow> program" where
  "dated_program f d = (sample_program f)\<lparr>date := Some d\<rparr>"

section \<open>Properties of the regular expressions\<close>

text \<open>The matcher decides membership in the language of the pattern.\<close>

lemma nullable_lang: "nullable r \<longleftrightarrow> [] \<in> lang r"
  by (induction r) (auto simp: conc_def intro: star.intros)

lemma star_cons_iff:
  "c # w \<in> star A \<longleftrightarrow> (\<exists>u v. w = u @ v \<and> c # u \<in> A \<and> v \<in> star A)"
proof
  assume "c # w \<in> star A"
  then show "\<exists>u v. w = u @ v \<and> c # u \<in> A \<and> v \<in> star A"
  proof (induction "c # w" arbitrary: w rule: star.induct)
    case (star_app u v)
    then show ?case by (cases u) auto
  qed
next
  assume "\<exists>u v. w = u @ v \<and> c # u \<in> A \<and> v \<in> star A"
  then obtain u v where "w = u @ v" "c # u \<in> A" "v \<in> star A" by blast
  then show "c # w \<in> star A" using star_app [of "c # u" A v] by simp
qed

lemma conc_cons_iff:
  "c # w \<in> conc A B \<longleftrightarrow>
     (\<exists>u v. w = u @ v \<and> c # u \<in> A \<and> v \<in> B) \<or> ([] \<in> A \<and> c # w \<in> B)"
  unfolding conc_def by (auto simp: Cons_eq_append_conv) 

lemma lang_deriv: "w \<in> lang (deriv c r) \<longleftrightarrow> c # w \<in> lang r"
proof (induction r arbitrary: w)
  case (Times r s)
  then show ?case
    by (auto simp: conc_cons_iff nullable_lang) (auto simp: conc_def)
next
  case (Star r)
  then show ?case by (auto simp: star_cons_iff) (auto simp: conc_def)
qed auto

lemma matches_lang: "matches r w \<longleftrightarrow> w \<in> lang r"
  by (induction w arbitrary: r) (auto simp: nullable_lang lang_deriv)


text \<open>What the two patterns of the program accept.\<close>

lemma star_any: "w \<in> star {[c] | c. True}"
proof (induction w)
  case Nil show ?case by (rule star_empty)
next
  case (Cons c w)
  have "[c] @ w \<in> star {[c] | c. True}" by (rule star_app) (use Cons in auto)
  then show ?case by simp
qed

lemma in_conc_Sym: "w \<in> conc {[c] | c. P c} B \<longleftrightarrow> (\<exists>c v. w = c # v \<and> P c \<and> v \<in> B)"
proof
  assume "w \<in> conc {[c] | c. P c} B"
  then obtain u v where uv: "w = u @ v" "u \<in> {[c] | c. P c}" "v \<in> B"
    unfolding conc_def by blast
  then obtain c where "u = [c]" "P c" by blast
  with uv show "\<exists>c v. w = c # v \<and> P c \<and> v \<in> B" by simp
next
  assume "\<exists>c v. w = c # v \<and> P c \<and> v \<in> B"
  then obtain c v where cv: "w = c # v" "P c" "v \<in> B" by blast
  then have "[c] \<in> {[c] | c. P c}" by blast
  with cv(3) have "[c] @ v \<in> conc {[c] | c. P c} B" unfolding conc_def by blast
  then show "w \<in> conc {[c] | c. P c} B" using cv(1) by simp
qed

lemma in_dollar: "w \<in> lang dollar \<longleftrightarrow> w = [] \<or> w = [newline]"
  by (auto simp: dollar_def lit_def)

lemma search_iff:
  "re_search (Times (Star dot) r) s \<longleftrightarrow> (\<exists>w. suffix w s \<and> w \<in> lang r)"
proof
  assume "re_search (Times (Star dot) r) s"
  then obtain u v where "s = u @ v" "v \<in> conc (star (lang dot)) (lang r)"
    by (auto simp: re_search_def matches_lang conc_def)
  then obtain v1 w where "v = v1 @ w" "w \<in> lang r" by (auto simp: conc_def)
  with \<open>s = u @ v\<close> have "s = (u @ v1) @ w \<and> w \<in> lang r" by simp
  then show "\<exists>w. suffix w s \<and> w \<in> lang r" unfolding suffix_def by blast
next
  assume "\<exists>w. suffix w s \<and> w \<in> lang r"
  then obtain p w where pw: "s = p @ w" "w \<in> lang r" unfolding suffix_def by blast
  have "p \<in> star (lang any_char)" using star_any [of p] by (simp add: any_char_def)
  moreover have "[] @ w \<in> conc (star (lang dot)) (lang r)"
    unfolding conc_def using pw(2) star_empty by blast
  ultimately have "p @ w \<in> conc (star (lang any_char)) (conc (star (lang dot)) (lang r))"
    unfolding conc_def by auto
  then show "re_search (Times (Star dot) r) s"
    by (simp add: re_search_def matches_lang pw(1))
qed

lemma lang_link_tail:
  "w \<in> lang (seq [lit CHR ''m'', lit CHR ''p'', lit CHR ''3'', dollar]) \<longleftrightarrow>
     w = ''mp3'' \<or> w = ''mp3'' @ [newline]"
  by (auto simp: lit_def in_conc_Sym in_dollar conc_def)

lemma link_regex_iff:
  "re_search link_regex s \<longleftrightarrow> suffix ''mp3'' s \<or> suffix (''mp3'' @ [newline]) s"
  unfolding link_regex_def seq.simps(2) [of "Star dot"] search_iff lang_link_tail
  by auto

lemma lang_seq_Syms:
  "w \<in> lang (seq (map Sym Ps @ [r])) \<longleftrightarrow>
     (\<exists>cs v. w = cs @ v \<and> list_all2 (\<lambda>P c. P c) Ps cs \<and> v \<in> lang r)"
proof (induction Ps arbitrary: w)
  case Nil
  show ?case by (simp add: conc_def)
next
  case (Cons P Ps)
  show ?case
  proof
    assume "w \<in> lang (seq (map Sym (P # Ps) @ [r]))"
    then obtain c w' where w: "w = c # w'" "P c" "w' \<in> lang (seq (map Sym Ps @ [r]))"
      by (auto simp: in_conc_Sym)
    then obtain cs v where "w' = cs @ v" "list_all2 (\<lambda>P c. P c) Ps cs" "v \<in> lang r"
      using Cons.IH by blast
    with w have "w = (c # cs) @ v \<and> list_all2 (\<lambda>P c. P c) (P # Ps) (c # cs) \<and> v \<in> lang r"
      by simp
    then show "\<exists>cs v. w = cs @ v \<and> list_all2 (\<lambda>P c. P c) (P # Ps) cs \<and> v \<in> lang r"
      by blast
  next
    assume "\<exists>cs v. w = cs @ v \<and> list_all2 (\<lambda>P c. P c) (P # Ps) cs \<and> v \<in> lang r"
    then obtain cs v where a: "w = cs @ v" "list_all2 (\<lambda>P c. P c) (P # Ps) cs" "v \<in> lang r"
      by blast
    then obtain c cs' where b: "cs = c # cs'" "P c" "list_all2 (\<lambda>P c. P c) Ps cs'"
      by (auto simp: list_all2_Cons1)
    then have "cs' @ v \<in> lang (seq (map Sym Ps @ [r]))" using Cons.IH a(3) by blast
    then show "w \<in> lang (seq (map Sym (P # Ps) @ [r]))"
      using a(1) b(1,2) by (simp add: in_conc_Sym)
  qed
qed

lemma date_pattern_eq: "date_pattern = Times (Star dot) (seq (map Sym date_syms @ [dollar]))"
  by (simp add: date_pattern_def date_syms_def lit_def digit_def lit_ignorecase_def)

lemma date_pattern_iff:
  "re_search date_pattern s \<longleftrightarrow>
     (\<exists>p cs nl. s = p @ cs @ nl \<and> list_all2 (\<lambda>P c. P c) date_syms cs \<and> (nl = [] \<or> nl = [newline]))"
  unfolding date_pattern_eq search_iff lang_seq_Syms in_dollar suffix_def
  by (metis append.assoc)

section \<open>Properties of the configuration resolver\<close>

lemma percent_format_two_one:
  "percent_format ''Incorrect configuration for %s : %s'' [v] =
     Inl (TypeError ''not enough arguments for format string'')"
  by (simp add: bind_def)

lemma check_values_empty:
  "[] \<in> set vs \<Longrightarrow> check_values vs = Inl (TypeError ''not enough arguments for format string'')"
  by (induction vs) (auto simp: percent_format_two_one bind_def)

lemma check_values_ok: "[] \<notin> set vs \<Longrightarrow> check_values vs = Inr ()"
  by (induction vs) auto

lemma resolve_eq:
  "resolve env cf k = (case cf k of None \<Rightarrow> Inl (KeyError k)
     | Some d \<Rightarrow> Inr (case env k of None \<Rightarrow> d | Some v \<Rightarrow> v))"
  by (simp add: resolve_def getitem_def getenv_def bind_def split: option.splits)

lemma load_config_empty_value:
  assumes "\<forall>k \<in> set config_keys. resolve env cf k = Inr (r k)"
    and "\<exists>k \<in> set config_keys. r k = []"
  shows "load_config env cf = Inl (TypeError ''not enough arguments for format string'')"
proof -
  have "[] \<in> set (map r config_keys)" using assms(2) by (metis image_eqI list.set_map)
  then have "check_values (map r config_keys) = Inl (TypeError ''not enough arguments for format string'')"
    by (rule check_values_empty)
  then show ?thesis
    using assms(1) by (simp add: load_config_def config_keys_def bind_def)
qed

lemma load_config_Inr:
  assumes "load_config env cf = Inr config"
  shows "\<exists>v1 v2 v3 v4 v5.
           resolve env cf ''START_URL'' = Inr v1 \<and> resolve env cf ''OUTPUT_FILE'' = Inr v2 \<and>
           resolve env cf ''PROGRAM_TITLE'' = Inr v3 \<and> resolve env cf ''PROGRAM_URL'' = Inr v4 \<and>
           resolve env cf ''PROGRAM_DESC'' = Inr v5 \<and>
           config = [(''START_URL'', v1), (''OUTPUT_FILE'', v2), (''PROGRAM_TITLE'', v3),
                     (''PROGRAM_URL'', v4), (''PROGRAM_DESC'', v5)] \<and>
           v1 \<noteq> [] \<and> v2 \<noteq> [] \<and> v3 \<noteq> [] \<and> v4 \<noteq> [] \<and> v5 \<noteq> []"
proof -
  from assms obtain v1 v2 v3 v4 v5 where
    r: "resolve env cf ''START_URL'' = Inr v1" "resolve env cf ''OUTPUT_FILE'' = Inr v2"
       "resolve env cf ''PROGRAM_TITLE'' = Inr v3" "resolve env cf ''PROGRAM_URL'' = Inr v4"
       "resolve env cf ''PROGRAM_DESC'' = Inr v5"
    and c: "bind (check_values [v1, v2, v3, v4, v5])
              (\<lambda>_. Inr [(''START_URL'', v1), (''OUTPUT_FILE'', v2), (''PROGRAM_TITLE'', v3),
                     (''PROGRAM_URL'', v4), (''PROGRAM_DESC'', v5)]) = Inr config"
    by (auto simp: load_config_def bind_def split: sum.splits)
  have "[] \<notin> set [v1, v2, v3, v4, v5]"
  proof
    assume "[] \<in> set [v1, v2, v3, v4, v5]"
    then have "check_values [v1, v2, v3, v4, v5] = Inl (TypeError ''not enough arguments for format string'')"
      by (rule check_values_empty)
    with c show False by (simp add: bind_def)
  qed
  then have ne: "v1 \<noteq> [] \<and> v2 \<noteq> [] \<and> v3 \<noteq> [] \<and> v4 \<noteq> [] \<and> v5 \<noteq> []" by auto
  then have "check_values [v1, v2, v3, v4, v5] = Inr ()" by simp
  with c have "config = [(''START_URL'', v1), (''OUTPUT_FILE'', v2), (''PROGRAM_TITLE'', v3),
                     (''PROGRAM_URL'', v4), (''PROGRAM_DESC'', v5)]" by (simp add: bind_def)
  with r ne show ?thesis by blast
qed

text \<open>
  Claim C1. A required field that resolves to the empty string makes \<^verbatim>\<open>load_config\<close>
  fail, before any request is sent. The exception the code raises there is not the
  configuration error its format string was written for: \<^verbatim>\<open>'... %s : %s' % value\<close>
  has two conversions and one argument, so building the message raises
  \<^verbatim>\<open>TypeError: not enough arguments for format string\<close>, which names no key. Here the
  configuration file gives \<^verbatim>\<open>START_URL\<close> the empty string and no variable is set;
  \<^verbatim>\<open>main\<close> logs that message and sends no request.
\<close>

theorem load_config_empty_value_raises_TypeError:
  "load_config Map.empty (sample_config(''START_URL'' \<mapsto> '''')) =
     Inl (TypeError ''not enough arguments for format string'') \<and>
   main Map.empty (sample_config(''START_URL'' \<mapsto> '''')) w now fs =
     \<lparr>out_files = fs,
      out_trace = [Log CRITICAL ''Error occurred during process : not enough arguments for format string''],
      exit_status = 0\<rparr>"
  by (simp add: main_def critical_def load_config_def resolve_eq sample_config_def bind_def)

text \<open>
  Claim C7, as the code has it. For each of the five keys the configuration file holds,
  the resolved value is the environment variable's value whenever the variable is set
  (an empty value included), and the file's value when it is unset; a configuration
  that \<^verbatim>\<open>load_config\<close> returns holds that value under the key.
\<close>

theorem load_config_env_overrides:
  assumes "k \<in> set config_keys" and "config_file k = Some d"
  shows "resolve env config_file k = Inr (case env k of None \<Rightarrow> d | Some v \<Rightarrow> v) \<and>
         (\<forall>config. load_config env config_file = Inr config \<longrightarrow>
            map_of config k = Some (case env k of None \<Rightarrow> d | Some v \<Rightarrow> v))"
proof
  show r: "resolve env config_file k = Inr (case env k of None \<Rightarrow> d | Some v \<Rightarrow> v)"
    using assms(2) by (simp add: resolve_eq)
  show "\<forall>config. load_config env config_file = Inr config \<longrightarrow>
            map_of config k = Some (case env k of None \<Rightarrow> d | Some v \<Rightarrow> v)"
  proof (intro allI impI)
    fix config assume "load_config env config_file = Inr config"
    from load_config_Inr [OF this] r assms(1) show
      "map_of config k = Some (case env k of None \<Rightarrow> d | Some v \<Rightarrow> v)"
      by (auto simp: config_keys_def)
  qed
qed

text \<open>The theorem at \<^verbatim>\<open>START_URL\<close>, set in the environment and in the file.\<close>

theorem load_config_env_overrides_witness:
  "''START_URL'' \<in> set config_keys \<and>
   sample_config ''START_URL'' = Some ''http://example.org/liste.php'' \<and>
   resolve [''START_URL'' \<mapsto> ''http://env.example/''] sample_config ''START_URL'' = Inr ''http://env.example/'' \<and>
   load_config [''START_URL'' \<mapsto> ''http://env.example/''] sample_config =
     Inr [(''START_URL'', ''http://env.example/''), (''OUTPUT_FILE'', ''feed.xml''),
          (''PROGRAM_TITLE'', ''T''), (''PROGRAM_URL'', ''http://example.org/''), (''PROGRAM_DESC'', ''D'')] \<and>
   map_of [(''START_URL'', ''http://env.example/''), (''OUTPUT_FILE'', ''feed.xml''),
          (''PROGRAM_TITLE'', ''T''), (''PROGRAM_URL'', ''http://example.org/''), (''PROGRAM_DESC'', ''D'')]
      ''START_URL'' = Some ''http://env.example/''"
proof -
  have k: "''START_URL'' \<in> set config_keys" by (simp add: config_keys_def)
  have d: "sample_config ''START_URL'' = Some ''http://example.org/liste.php''"
    by (simp add: sample_config_def)
  have l: "load_config [''START_URL'' \<mapsto> ''http://env.example/''] sample_config =
     Inr [(''START_URL'', ''http://env.example/''), (''OUTPUT_FILE'', ''feed.xml''),
          (''PROGRAM_TITLE'', ''T''), (''PROGRAM_URL'', ''http://example.org/''), (''PROGRAM_DESC'', ''D'')]"
    by (simp add: load_config_def resolve_eq sample_config_def bind_def)
  from load_config_env_overrides
         [where k = "''START_URL''" and config_file = sample_config
            and d = "''http://example.org/liste.php''"
            and env = "[''START_URL'' \<mapsto> ''http://env.example/'']", OF k d] k d l
  show ?thesis by simp
qed

text \<open>
  Claim C7 as stated fails: a variable set to the empty string is not ignored. With
  \<^verbatim>\<open>START_URL\<close> set to the empty string the resolved value is empty, not the file's
  value, and \<^verbatim>\<open>load_config\<close> fails.
\<close>

theorem empty_env_value_counterexample:
  "resolve [''START_URL'' \<mapsto> ''''] sample_config ''START_URL'' = Inr [] \<and>
   sample_config ''START_URL'' = Some ''http://example.org/liste.php'' \<and>
   resolve [''START_URL'' \<mapsto> ''''] sample_config ''START_URL'' \<noteq> Inr ''http://example.org/liste.php'' \<and>
   load_config [''START_URL'' \<mapsto> ''''] sample_config =
     Inl (TypeError ''not enough arguments for format string'')"
  by (simp add: load_config_def resolve_eq sample_config_def bind_def)

section \<open>Properties of the extractor\<close>

lemma find_all_Cons_D:
  "find_all soup name flt = e # es \<Longrightarrow> e \<in> set soup \<and> el_name e = name \<and> flt e"
proof -
  assume "find_all soup name flt = e # es"
  then have "e \<in> set (filter (\<lambda>e. el_name e = name \<and> flt e) soup)"
    by (simp add: find_all_def)
  then show ?thesis by simp
qed

lemma find_all_empty_iff:
  "find_all soup name flt = [] \<longleftrightarrow> (\<forall>e \<in> set soup. el_name e = name \<longrightarrow> \<not> flt e)"
  by (auto simp: find_all_def filter_empty_conv)

lemma found_href:
  assumes "find_all soup ''a'' (attr_search ''href'' r) = e # es"
  shows "\<exists>h. el_attrs e ''href'' = Some h \<and> re_search r h"
  using find_all_Cons_D [OF assms] by (auto simp: attr_search_def split: option.splits)

lemma extract_program_total: "\<exists>p. extract_program w soup page_url = Inr p"
proof (cases "find_all soup ''a'' (attr_search ''href'' link_regex)")
  case Nil
  then show ?thesis by (simp add: extract_program_def Let_def)
next
  case (Cons e es)
  from found_href [OF Cons] obtain h where "el_attrs e ''href'' = Some h" by blast
  with Cons show ?thesis by (simp add: extract_program_def Let_def getitem_def bind_def)
qed


lemma extract_program_no_link:
  assumes "find_all soup ''a'' (attr_search ''href'' link_regex) = []"
    and "extract_program w soup page_url = Inr p"
  shows "link p = []"
  using assms by (auto simp: extract_program_def Let_def split: list.splits)

lemma extract_program_link:
  assumes "find_all soup ''a'' (attr_search ''href'' link_regex) = e # es"
    and "extract_program w soup page_url = Inr p"
  shows "\<exists>h. el_attrs e ''href'' = Some h \<and> link p = urljoin w page_url h"
proof -
  from found_href [OF assms(1)] obtain h where h: "el_attrs e ''href'' = Some h" by blast
  with assms show ?thesis
    by (auto simp: extract_program_def Let_def getitem_def bind_def split: list.splits)
qed

lemma page_step_fetched:
  assumes "el_attrs page_link ''href'' = Some href"
    and "sublist program_page (urljoin w url href)"
    and "http_get w (urljoin w url href) = Inr soup_page"
    and "extract_program w soup_page (urljoin w url href) = Inr p"
  shows "page_step w url page_link programs tr =
     (Inr (fst (keep_program p (urljoin w url href) programs
                 (tr @ [Log INFO (''Parsing '' @ urljoin w url href), Request (urljoin w url href)]))),
      snd (keep_program p (urljoin w url href) programs
                 (tr @ [Log INFO (''Parsing '' @ urljoin w url href), Request (urljoin w url href)])))"
  using assms by (simp add: page_step_def getitem_def Let_def split: prod.splits)

lemma page_step_no_href:
  "el_attrs page_link ''href'' = None \<Longrightarrow>
   page_step w url page_link programs tr = (Inl (KeyError ''href''), tr)"
  by (simp add: page_step_def getitem_def)

lemma page_step_other_link:
  "el_attrs page_link ''href'' = Some href \<Longrightarrow> \<not> sublist program_page (urljoin w url href) \<Longrightarrow>
   page_step w url page_link programs tr = (Inr programs, tr)"
  by (simp add: page_step_def getitem_def)

lemma page_step_fetch_fails:
  "el_attrs page_link ''href'' = Some href \<Longrightarrow> sublist program_page (urljoin w url href) \<Longrightarrow>
   http_get w (urljoin w url href) = Inl e \<Longrightarrow>
   page_step w url page_link programs tr =
     (Inl e, tr @ [Log INFO (''Parsing '' @ urljoin w url href), Request (urljoin w url href)])"
  by (simp add: page_step_def getitem_def Let_def)

lemma page_links_loop_append:
  "page_links_loop w url (xs @ ys) programs tr =
     (case page_links_loop w url xs programs tr of
        (Inl e, tr') \<Rightarrow> (Inl e, tr')
      | (Inr programs', tr') \<Rightarrow> page_links_loop w url ys programs' tr')"
  by (induction xs arbitrary: programs tr) (auto split: prod.splits sum.splits)

lemma length_date_syms: "length date_syms = 15"
  by (simp add: date_syms_def)

lemma date_syms_last: "list_all2 (\<lambda>P c. P c) date_syms cs \<Longrightarrow> cs \<noteq> [] \<and> last cs = CHR ''3''"
  by (auto simp: date_syms_def list_all2_Cons1)

lemma date_match_tail:
  assumes "re_search date_pattern (s @ t)" and "t \<noteq> []" and "last t \<noteq> newline"
    and "length t \<le> 15"
  shows "list_all2 (\<lambda>P c. P c) (drop (15 - length t) date_syms) t"
proof -
  from assms(1) obtain p cs nl where
    d: "s @ t = p @ cs @ nl" and cs: "list_all2 (\<lambda>P c. P c) date_syms cs"
    and nl: "nl = [] \<or> nl = [newline]"
    unfolding date_pattern_iff by blast
  have "nl = []"
  proof (rule ccontr)
    assume "nl \<noteq> []"
    with nl have "nl = [newline]" by simp
    with d have "last (s @ t) = newline" by simp
    with assms(2,3) show False by simp
  qed
  with d have e: "s @ t = p @ cs" by simp
  have len: "length cs = 15" using list_all2_lengthD [OF cs] by (simp add: length_date_syms)
  with assms(4) have "length t \<le> length cs" by simp
  with e have "suffix t cs"
    by (metis suffixI suffix_same_cases suffix_length_le le_antisym suffix_order.eq_iff
        suffix_length_suffix)
  then obtain u where u: "cs = u @ t" unfolding suffix_def by blast
  with len have lu: "length u = 15 - length t" by simp
  from cs u obtain us vs where uv: "date_syms = us @ vs" "length us = length u"
    and vs: "list_all2 (\<lambda>P c. P c) vs t"
    by (auto simp: list_all2_append2)
  have "drop (length us) (us @ vs) = vs" by simp
  with uv lu have "drop (15 - length t) date_syms = vs" by metis
  with vs show ?thesis by simp
qed

lemma date_match_suffix:
  assumes "list_all2 (\<lambda>P c. P c) date_syms cs"
  shows "re_search date_pattern (s @ cs)"
  unfolding date_pattern_iff using assms by (metis append_Nil2)

lemma strip_newline_append:
  "t \<noteq> [] \<Longrightarrow> last t \<noteq> newline \<Longrightarrow> strip_newline (s @ t) = s @ t"
  by (simp add: strip_newline_def)

lemma date_search_suffix:
  assumes "list_all2 (\<lambda>P c. P c) date_syms cs"
  shows "date_search (s @ cs) = Some [take 4 (drop 1 cs), take 2 (drop 6 cs), take 2 (drop 9 cs)]"
proof -
  have len: "length cs = 15" using list_all2_lengthD [OF assms] by (simp add: length_date_syms)
  have "cs \<noteq> []" "last cs \<noteq> newline"
    using date_syms_last [OF assms] by (auto simp: newline_def)
  then have "strip_newline (s @ cs) = s @ cs" by (rule strip_newline_append)
  then have "date_groups (s @ cs) = [take 4 (drop 1 cs), take 2 (drop 6 cs), take 2 (drop 9 cs)]"
    by (simp add: date_groups_def Let_def len)
  with date_match_suffix [OF assms] show ?thesis by (simp add: date_search_def)
qed

lemma date_search_digits:
  assumes "is_digit y1" "is_digit y2" "is_digit y3" "is_digit y4"
    "is_digit m1" "is_digit m2" "is_digit d1" "is_digit d2"
    "e1 = CHR ''m'' \<or> e1 = CHR ''M''" "e2 = CHR ''p'' \<or> e2 = CHR ''P''"
  shows "date_search (s @ [CHR ''_'', y1, y2, y3, y4, CHR ''_'', m1, m2, CHR ''_'', d1, d2,
            CHR ''.'', e1, e2, CHR ''3'']) = Some [[y1, y2, y3, y4], [m1, m2], [d1, d2]]"
proof -
  have "list_all2 (\<lambda>P c. P c) date_syms [CHR ''_'', y1, y2, y3, y4, CHR ''_'', m1, m2, CHR ''_'', d1, d2,
            CHR ''.'', e1, e2, CHR ''3'']"
    using assms by (simp add: date_syms_def)
  from date_search_suffix [OF this, of s] show ?thesis by simp
qed

lemma date_search_2023_07_04:
  "date_search (s @ ''_2023_07_04.mp3'') = Some [''2023'', ''07'', ''04'']"
  using date_search_digits [of "CHR ''2''" "CHR ''0''" "CHR ''2''" "CHR ''3''" "CHR ''0''" "CHR ''7''"
      "CHR ''0''" "CHR ''4''" "CHR ''m''" "CHR ''p''" s]
  by (simp add: is_digit_def)

lemma date_search_invalid: "date_search (s @ ''_invalid.mp3'') = None"
proof -
  have "\<not> re_search date_pattern (s @ ''_invalid.mp3'')"
  proof
    assume "re_search date_pattern (s @ ''_invalid.mp3'')"
    then have "list_all2 (\<lambda>P c. P c) (drop (15 - length ''_invalid.mp3'') date_syms) ''_invalid.mp3''"
      by (rule date_match_tail) (simp_all add: newline_def)
    then show False by (simp add: date_syms_def is_digit_def)
  qed
  then show ?thesis by (simp add: date_search_def)
qed

lemma link_regex_tail:
  assumes "length ext = 3" and "last ext \<noteq> newline"
  shows "re_search link_regex (s @ ext) \<longleftrightarrow> ext = ''mp3''"
proof -
  from assms(1) obtain a b c where ext: "ext = [a, b, c]"
    by (auto simp: length_Suc_conv numeral_3_eq_3)
  with assms(2) have "c \<noteq> newline" by simp
  then show ?thesis
    unfolding link_regex_iff ext by (auto simp: suffix_def newline_def)
qed

lemma sublist_detail_url: "sublist program_page (detail_url n)"
proof -
  have "detail_url n = ''http://example.org/'' @ program_page @ (''?id='' @ n)"
    by (simp add: detail_url_def program_page_def)
  then show ?thesis unfolding sublist_def by blast
qed

lemma find_all_sample_link:
  "find_all (sample_page f) ''a'' (attr_search ''href'' link_regex) =
     (if re_search link_regex (audio_url f) then [anchor (audio_url f)] else [])"
  by (simp add: find_all_def sample_page_def div_id_def anchor_def attr_search_def)

lemma extract_sample_page:
  "re_search link_regex (audio_url f) \<Longrightarrow>
   extract_program (sample_world l) (sample_page f) u = Inr (sample_program f)"
  by (simp add: extract_program_def find_all_sample_link Let_def)
     (simp add: find_all_def sample_page_def div_id_def anchor_def attr_equals_def
        title_id_def program_id_def sample_world_def getitem_def bind_def sample_program_def)

lemma extract_sample_page_no_link:
  "\<not> re_search link_regex (audio_url f) \<Longrightarrow>
   extract_program (sample_world l) (sample_page f) u = Inr ((sample_program f)\<lparr>link := []\<rparr>)"
  by (simp add: extract_program_def find_all_sample_link Let_def)
     (simp add: find_all_def sample_page_def div_id_def anchor_def attr_equals_def
        title_id_def program_id_def sample_world_def getitem_def bind_def sample_program_def)

lemma extract_page_no_description:
  "re_search link_regex (audio_url f) \<Longrightarrow>
   extract_program (sample_world l) (page_no_description f) u = Inr ((sample_program f)\<lparr>description := []\<rparr>)"
  by (simp add: extract_program_def Let_def find_all_def page_no_description_def div_id_def
        anchor_def attr_equals_def attr_search_def
        title_id_def program_id_def sample_world_def getitem_def bind_def sample_program_def)

lemma link_regex_audio_mp3: "re_search link_regex (audio_url (s @ ''mp3''))"
  by (simp add: link_regex_iff audio_url_def suffix_def)

text \<open>
  Claim C3. A detail page from which the title, the description or the link comes out
  empty yields no record: the list of programs is unchanged (no partial record is
  added), \<^verbatim>\<open>logger.warning\<close> is called, nothing is raised, and the loop goes on with the
  remaining anchors.
\<close>

theorem incomplete_page_skipped:
  assumes "el_attrs page_link ''href'' = Some href"
    and "sublist program_page (urljoin w url href)"
    and "http_get w (urljoin w url href) = Inr soup_page"
    and "extract_program w soup_page (urljoin w url href) = Inr p"
    and "title p = [] \<or> description p = [] \<or> link p = []"
  shows "page_step w url page_link programs tr =
           (Inr programs,
            tr @ [Log INFO (''Parsing '' @ urljoin w url href), Request (urljoin w url href),
                  Log WARNING (''Cannot find all data for '' @ title p @ '' ('' @ urljoin w url href @ '')'')])
       \<and> page_links_loop w url (page_link # rest) programs tr =
           page_links_loop w url rest programs
             (tr @ [Log INFO (''Parsing '' @ urljoin w url href), Request (urljoin w url href),
                  Log WARNING (''Cannot find all data for '' @ title p @ '' ('' @ urljoin w url href @ '')'')])"
proof -
  have "incomplete p" using assms(5) by (simp add: incomplete_def)
  then have "page_step w url page_link programs tr =
           (Inr programs,
            tr @ [Log INFO (''Parsing '' @ urljoin w url href), Request (urljoin w url href),
                  Log WARNING (''Cannot find all data for '' @ title p @ '' ('' @ urljoin w url href @ '')'')])"
    using page_step_fetched [OF assms(1-4)] by (simp add: keep_program_def cannot_find_def)
  then show ?thesis by simp
qed

text \<open>The theorem at the sample page that has no description.\<close>

theorem incomplete_page_skipped_witness:
  "el_attrs (anchor (detail_url ''2'')) ''href'' = Some (detail_url ''2'') \<and>
   sublist program_page (detail_url ''2'') \<and>
   http_get (sample_world []) (detail_url ''2'') = Inr (page_no_description ''mrx_2023_01_01.mp3'') \<and>
   extract_program (sample_world []) (page_no_description ''mrx_2023_01_01.mp3'') (detail_url ''2'')
     = Inr ((sample_program ''mrx_2023_01_01.mp3'')\<lparr>description := []\<rparr>) \<and>
   page_step (sample_world []) ''http://example.org/liste.php'' (anchor (detail_url ''2'')) [] [] =
     (Inr [], [Log INFO (''Parsing '' @ detail_url ''2''), Request (detail_url ''2''),
               Log WARNING (''Cannot find all data for Episode ('' @ detail_url ''2'' @ '')'')]) \<and>
   page_links_loop (sample_world []) ''http://example.org/liste.php'' [anchor (detail_url ''2'')] [] [] =
     (Inr [], [Log INFO (''Parsing '' @ detail_url ''2''), Request (detail_url ''2''),
               Log WARNING (''Cannot find all data for Episode ('' @ detail_url ''2'' @ '')'')])"
proof -
  let ?w = "sample_world []"
  have u: "urljoin ?w ''http://example.org/liste.php'' (detail_url ''2'') = detail_url ''2''"
    by (simp add: sample_world_def)
  have a: "el_attrs (anchor (detail_url ''2'')) ''href'' = Some (detail_url ''2'')"
    by (simp add: anchor_def)
  have b: "sublist program_page (urljoin ?w ''http://example.org/liste.php'' (detail_url ''2''))"
    unfolding u by (rule sublist_detail_url)
  have c: "http_get ?w (urljoin ?w ''http://example.org/liste.php'' (detail_url ''2'')) =
      Inr (page_no_description ''mrx_2023_01_01.mp3'')"
    unfolding u by (simp add: sample_world_def detail_url_def)
  have d: "extract_program ?w (page_no_description ''mrx_2023_01_01.mp3'')
      (urljoin ?w ''http://example.org/liste.php'' (detail_url ''2''))
     = Inr ((sample_program ''mrx_2023_01_01.mp3'')\<lparr>description := []\<rparr>)"
    using link_regex_audio_mp3 [of "''mrx_2023_01_01.''"]
    by (simp add: extract_page_no_description)
  have e: "title ((sample_program ''mrx_2023_01_01.mp3'')\<lparr>description := []\<rparr>) = [] \<or>
           description ((sample_program ''mrx_2023_01_01.mp3'')\<lparr>description := []\<rparr>) = [] \<or>
           link ((sample_program ''mrx_2023_01_01.mp3'')\<lparr>description := []\<rparr>) = []"
    by simp
  from incomplete_page_skipped [OF a b c d e, of "[]" "[]" "[]"] a b c d
  show ?thesis unfolding u by (simp add: sample_program_def)
qed

lemma keep_program_dated:
  assumes "\<not> incomplete p" and "date_search (link p) = Some g"
  shows "keep_program p u programs tr = (programs @ [p\<lparr>date := Some (join ''-'' g)\<rparr>], tr)"
  using assms by (simp add: keep_program_def)

lemma keep_program_undated:
  assumes "\<not> incomplete p" and "\<not> re_search date_pattern (link p)"
  shows "keep_program p u programs tr =
     (programs @ [p], tr @ [Log WARNING (''Cannot determine date of '' @ title p @ '' ('' @ u @ '')'')])"
  using assms by (simp add: keep_program_def date_search_def cannot_date_def)



lemma sample_href: "el_attrs (anchor h) ''href'' = Some h"
  by (simp add: anchor_def)

lemma sample_urljoin: "urljoin (sample_world l) u h = h"
  by (simp add: sample_world_def)

lemma sample_sublist: "sublist program_page (urljoin (sample_world l) u (detail_url n))"
  unfolding sample_urljoin by (rule sublist_detail_url)

lemma sample_get:
  "http_get (sample_world l) (detail_url n) = r \<Longrightarrow>
   http_get (sample_world l) (urljoin (sample_world l) u (detail_url n)) = r"
  unfolding sample_urljoin .

lemma http_get_sample_1:
  "http_get (sample_world l) (detail_url ''1'') = Inr (sample_page ''mrx_2023_07_04.mp3'')"
  by (simp add: sample_world_def detail_url_def)

lemma http_get_sample_4:
  "http_get (sample_world l) (detail_url ''4'') = Inr (sample_page ''mrx_invalid.mp3'')"
  by (simp add: sample_world_def detail_url_def)


section \<open>Properties of the fetcher and of \<^verbatim>\<open>main\<close>\<close>

lemma get_programs_listing_fails:
  "http_get w url = Inl e \<Longrightarrow> get_programs w url = (Inl e, [Request url])"
  by (simp add: get_programs_def)

lemma get_programs_loop_fails:
  assumes "http_get w url = Inr soup_main"
    and "page_links_loop w url (find_all soup_main ''a'' (\<lambda>e. True)) [] [Request url] = (Inl e, tr)"
  shows "get_programs w url = (Inl e, tr)"
  using assms by (simp add: get_programs_def)

lemma loop_stops_at_error:
  assumes "page_links_loop w url pre programs tr = (Inr ps, tr')"
    and "page_step w url a ps tr' = (Inl e, tr'')"
  shows "page_links_loop w url (pre @ a # rest) programs tr = (Inl e, tr'')"
  using assms by (simp add: page_links_loop_append)

lemma loop_no_href:
  assumes "el_attrs a ''href'' = None"
  shows "page_links_loop w url (pre @ a # rest) programs tr =
     (case page_links_loop w url pre programs tr of
        (Inl e, tr') \<Rightarrow> (Inl e, tr')
      | (Inr ps, tr') \<Rightarrow> (Inl (KeyError ''href''), tr'))"
  by (simp add: page_links_loop_append page_step_no_href [OF assms] split: prod.splits sum.splits)

lemma main_fetch_error:
  assumes "load_config env cf = Inr config" and "map_of config ''START_URL'' = Some url"
    and "get_programs w url = (Inl e, tr)"
  shows "main env cf w now fs = critical e fs tr"
  using assms by (simp add: main_def getitem_def)

text \<open>
  Claim C9. An anchor of the listing page without an \<^verbatim>\<open>href\<close> raises
  \<^verbatim>\<open>KeyError('href')\<close> when its URL is resolved, before anything is logged or requested
  for it. So a listing with such an anchor never yields a list of programs: when the
  anchors before it are processed without an exception, \<^verbatim>\<open>get_programs\<close> raises that
  \<^verbatim>\<open>KeyError\<close> with the trace as those anchors left it (no remaining anchor is
  processed), and \<^verbatim>\<open>main\<close> writes no file.
\<close>

theorem anchor_without_href_raises:
  assumes "http_get w url = Inr soup_main"
    and "find_all soup_main ''a'' (\<lambda>e. True) = pre @ a # rest"
    and "el_attrs a ''href'' = None"
  shows "page_step w url a programs tr = (Inl (KeyError ''href''), tr)
    \<and> (\<exists>e tr'. get_programs w url = (Inl e, tr'))
    \<and> (\<forall>ps tr'. page_links_loop w url pre [] [Request url] = (Inr ps, tr') \<longrightarrow>
          get_programs w url = (Inl (KeyError ''href''), tr'))
    \<and> (\<forall>env cf config now fs. load_config env cf = Inr config \<longrightarrow>
          map_of config ''START_URL'' = Some url \<longrightarrow>
          out_files (main env cf w now fs) = fs)"
proof -
  have 1: "page_step w url a programs tr = (Inl (KeyError ''href''), tr)"
    using assms(3) by (rule page_step_no_href)
  have loop: "page_links_loop w url (find_all soup_main ''a'' (\<lambda>e. True)) [] [Request url] =
     (case page_links_loop w url pre [] [Request url] of
        (Inl e, tr') \<Rightarrow> (Inl e, tr')
      | (Inr ps, tr') \<Rightarrow> (Inl (KeyError ''href''), tr'))"
    unfolding assms(2) using assms(3) by (rule loop_no_href)
  have 2: "\<exists>e tr'. get_programs w url = (Inl e, tr')"
  proof -
    obtain r t where rt: "page_links_loop w url pre [] [Request url] = (r, t)"
      by (cases "page_links_loop w url pre [] [Request url]")
    show ?thesis
    proof (cases r)
      case (Inl e)
      with rt loop have "page_links_loop w url (find_all soup_main ''a'' (\<lambda>e. True)) [] [Request url] = (Inl e, t)"
        by simp
      from get_programs_loop_fails [OF assms(1) this] show ?thesis by blast
    next
      case (Inr ps)
      with rt loop have "page_links_loop w url (find_all soup_main ''a'' (\<lambda>e. True)) [] [Request url] =
          (Inl (KeyError ''href''), t)"
        by simp
      from get_programs_loop_fails [OF assms(1) this] show ?thesis by blast
    qed
  qed
  have 3: "get_programs w url = (Inl (KeyError ''href''), tr')"
    if "page_links_loop w url pre [] [Request url] = (Inr ps, tr')" for ps tr'
  proof -
    from that loop have "page_links_loop w url (find_all soup_main ''a'' (\<lambda>e. True)) [] [Request url] =
          (Inl (KeyError ''href''), tr')"
      by simp
    from get_programs_loop_fails [OF assms(1) this] show ?thesis .
  qed
  have 4: "out_files (main env cf w now fs) = fs"
    if "load_config env cf = Inr config" and "map_of config ''START_URL'' = Some url"
    for env cf config now fs
  proof -
    from 2 obtain e tr' where "get_programs w url = (Inl e, tr')" by blast
    from main_fetch_error [OF that this] show ?thesis by (simp add: critical_def)
  qed
  show ?thesis
    by (intro conjI allI impI) (rule 1, rule 2, erule 3, erule 4, assumption)
qed

lemma sample_program_complete: "\<not> incomplete (sample_program f)"
  by (simp add: incomplete_def sample_program_def audio_url_def)

lemma sample_step_1:
  "page_step (sample_world l) u (anchor (detail_url ''1'')) programs tr =
     (Inr (programs @ [(sample_program ''mrx_2023_07_04.mp3'')\<lparr>date := Some ''2023-07-04''\<rparr>]),
      tr @ [Log INFO (''Parsing '' @ detail_url ''1''), Request (detail_url ''1'')])"
proof -
  have r: "re_search link_regex (audio_url ''mrx_2023_07_04.mp3'')"
    using link_regex_audio_mp3 [of "''mrx_2023_07_04.''"] by simp
  have "date_search (link (sample_program ''mrx_2023_07_04.mp3'')) = Some [''2023'', ''07'', ''04'']"
    using date_search_2023_07_04 [of "''http://example.org/audio/mrx''"]
    by (simp add: sample_program_def audio_url_def)
  from keep_program_dated [OF sample_program_complete this]
  show ?thesis
    unfolding page_step_fetched [OF sample_href sample_sublist sample_get [OF http_get_sample_1]
        extract_sample_page [OF r]]
    by (simp add: sample_urljoin)
qed

lemma sample_step_2:
  "page_step (sample_world l) u (anchor (detail_url ''2'')) programs tr =
     (Inr programs,
      tr @ [Log INFO (''Parsing '' @ detail_url ''2''), Request (detail_url ''2''),
            Log WARNING (''Cannot find all data for Episode ('' @ detail_url ''2'' @ '')'')])"
proof -
  have r: "re_search link_regex (audio_url ''mrx_2023_01_01.mp3'')"
    using link_regex_audio_mp3 [of "''mrx_2023_01_01.''"] by simp
  have g: "http_get (sample_world l) (detail_url ''2'') = Inr (page_no_description ''mrx_2023_01_01.mp3'')"
    by (simp add: sample_world_def detail_url_def)
  show ?thesis
    unfolding page_step_fetched [OF sample_href sample_sublist sample_get [OF g]
        extract_page_no_description [OF r]]
    by (simp add: sample_urljoin keep_program_def incomplete_def cannot_find_def sample_program_def)
qed

lemma sample_step_5:
  "page_step (sample_world l) u (anchor (detail_url ''5'')) programs tr =
     (Inl (RequestException ''connection refused''),
      tr @ [Log INFO (''Parsing '' @ detail_url ''5''), Request (detail_url ''5'')])"
proof -
  have g: "http_get (sample_world l) (detail_url ''5'') = Inl (RequestException ''connection refused'')"
    by (simp add: sample_world_def detail_url_def)
  show ?thesis
    unfolding page_step_fetch_fails [OF sample_href sample_sublist sample_get [OF g]]
    by (simp add: sample_urljoin)
qed

lemma sample_listing_get: "http_get (sample_world l) listing_url = Inr l"
  by (simp add: sample_world_def listing_url_def)

lemma find_all_anchors:
  "\<forall>e \<in> set l. el_name e = ''a'' \<Longrightarrow> find_all l ''a'' (\<lambda>e. True) = l"
  by (simp add: find_all_def)

lemma load_sample_config:
  "load_config Map.empty sample_config =
     Inr [(''START_URL'', listing_url), (''OUTPUT_FILE'', ''feed.xml''),
          (''PROGRAM_TITLE'', ''T''), (''PROGRAM_URL'', ''http://example.org/''), (''PROGRAM_DESC'', ''D'')]"
  by (simp add: load_config_def resolve_eq sample_config_def bind_def listing_url_def)

text \<open>The theorem at a sample listing whose second anchor has no \<^verbatim>\<open>href\<close>.\<close>

theorem anchor_without_href_raises_witness:
  "http_get (sample_world [anchor (detail_url ''1''), bare_anchor, anchor (detail_url ''2'')]) listing_url
     = Inr [anchor (detail_url ''1''), bare_anchor, anchor (detail_url ''2'')] \<and>
   find_all [anchor (detail_url ''1''), bare_anchor, anchor (detail_url ''2'')] ''a'' (\<lambda>e. True)
     = [anchor (detail_url ''1'')] @ bare_anchor # [anchor (detail_url ''2'')] \<and>
   el_attrs bare_anchor ''href'' = None \<and>
   page_links_loop (sample_world [anchor (detail_url ''1''), bare_anchor, anchor (detail_url ''2'')])
      listing_url [anchor (detail_url ''1'')] [] [Request listing_url]
     = (Inr [(sample_program ''mrx_2023_07_04.mp3'')\<lparr>date := Some ''2023-07-04''\<rparr>],
        [Request listing_url, Log INFO (''Parsing '' @ detail_url ''1''), Request (detail_url ''1'')]) \<and>
   get_programs (sample_world [anchor (detail_url ''1''), bare_anchor, anchor (detail_url ''2'')]) listing_url
     = (Inl (KeyError ''href''),
        [Request listing_url, Log INFO (''Parsing '' @ detail_url ''1''), Request (detail_url ''1'')]) \<and>
   out_files (main Map.empty sample_config
      (sample_world [anchor (detail_url ''1''), bare_anchor, anchor (detail_url ''2'')]) sample_now Map.empty)
     = Map.empty"
proof -
  let ?l = "[anchor (detail_url ''1''), bare_anchor, anchor (detail_url ''2'')]"
  let ?w = "sample_world ?l"
  have a: "http_get ?w listing_url = Inr ?l" by (rule sample_listing_get)
  have b: "find_all ?l ''a'' (\<lambda>e. True) = [anchor (detail_url ''1'')] @ bare_anchor # [anchor (detail_url ''2'')]"
    by (simp add: find_all_def anchor_def bare_anchor_def)
  have c: "el_attrs bare_anchor ''href'' = None" by (simp add: bare_anchor_def)
  have d: "page_links_loop ?w listing_url [anchor (detail_url ''1'')] [] [Request listing_url]
     = (Inr [(sample_program ''mrx_2023_07_04.mp3'')\<lparr>date := Some ''2023-07-04''\<rparr>],
        [Request listing_url, Log INFO (''Parsing '' @ detail_url ''1''), Request (detail_url ''1'')])"
    by (simp add: sample_step_1)
  note t = anchor_without_href_raises [where w = ?w and url = listing_url and soup_main = ?l
      and pre = "[anchor (detail_url ''1'')]" and a = bare_anchor
      and rest = "[anchor (detail_url ''2'')]", OF a b c]
  have e: "get_programs ?w listing_url = (Inl (KeyError ''href''),
        [Request listing_url, Log INFO (''Parsing '' @ detail_url ''1''), Request (detail_url ''1'')])"
    using t [THEN conjunct2, THEN conjunct2, THEN conjunct1, rule_format, OF d] .
  have f: "out_files (main Map.empty sample_config ?w sample_now Map.empty) = Map.empty"
    using t [THEN conjunct2, THEN conjunct2, THEN conjunct2, rule_format, OF load_sample_config]
    by simp
  from a b c d e f show ?thesis by blast
qed

lemma no_match_no_link:
  assumes "\<forall>e \<in> set soup_page. el_name e = ''a'' \<longrightarrow>
             (\<forall>h. el_attrs e ''href'' = Some h \<longrightarrow>
                \<not> suffix ''mp3'' h \<and> \<not> suffix (''mp3'' @ [newline]) h)"
  shows "find_all soup_page ''a'' (attr_search ''href'' link_regex) = []"
  unfolding find_all_empty_iff
  using assms by (auto simp: attr_search_def link_regex_iff split: option.splits)

lemma uppercase_not_link:
  assumes "ext \<in> {''MP3'', ''Mp3'', ''mP3''}"
  shows "\<not> suffix ''mp3'' (s @ ext)" and "\<not> suffix (''mp3'' @ [newline]) (s @ ext)"
    and "\<not> re_search link_regex (s @ ext)"
proof -
  have l: "length ext = 3" "last ext \<noteq> newline" "ext \<noteq> ''mp3''"
    using assms by (auto simp: newline_def)
  then show n: "\<not> re_search link_regex (s @ ext)" by (simp add: link_regex_tail)
  then show "\<not> suffix ''mp3'' (s @ ext)" "\<not> suffix (''mp3'' @ [newline]) (s @ ext)"
    by (simp_all add: link_regex_iff)
qed

lemma uppercase_date:
  assumes "ext \<in> {''MP3'', ''Mp3'', ''mP3'', ''mp3''}"
  shows "re_search date_pattern (s @ ''_2023_07_04.'' @ ext)"
proof -
  have "list_all2 (\<lambda>P c. P c) date_syms (''_2023_07_04.'' @ ext)"
    using assms by (auto simp: date_syms_def is_digit_def)
  then show ?thesis by (rule date_match_suffix)
qed

text \<open>
  Claim C10. The link pattern is case-sensitive. On a detail page none of whose anchors
  has an \<^verbatim>\<open>href\<close> ending in lower-case \<^verbatim>\<open>mp3\<close>, the link stays empty and the record
  is discarded as incomplete. An \<^verbatim>\<open>href\<close> that ends in \<^verbatim>\<open>MP3\<close>, \<^verbatim>\<open>Mp3\<close> or
  \<^verbatim>\<open>mP3\<close> is such an \<^verbatim>\<open>href\<close>: the link pattern does not match it, although the date
  pattern does; an \<^verbatim>\<open>href\<close> that ends in \<^verbatim>\<open>mp3\<close> matches the link pattern.
\<close>

theorem link_regex_case_sensitive:
  assumes "el_attrs page_link ''href'' = Some href"
    and "sublist program_page (urljoin w url href)"
    and "http_get w (urljoin w url href) = Inr soup_page"
    and "\<forall>e \<in> set soup_page. el_name e = ''a'' \<longrightarrow>
             (\<forall>h. el_attrs e ''href'' = Some h \<longrightarrow>
                \<not> suffix ''mp3'' h \<and> \<not> suffix (''mp3'' @ [newline]) h)"
  shows "(\<exists>p. extract_program w soup_page (urljoin w url href) = Inr p \<and> link p = [] \<and>
            page_step w url page_link programs tr =
              (Inr programs,
               tr @ [Log INFO (''Parsing '' @ urljoin w url href), Request (urljoin w url href),
                     Log WARNING (''Cannot find all data for '' @ title p @ '' ('' @ urljoin w url href @ '')'')]))
    \<and> (\<forall>s ext. ext \<in> {''MP3'', ''Mp3'', ''mP3''} \<longrightarrow>
          \<not> suffix ''mp3'' (s @ ext) \<and> \<not> suffix (''mp3'' @ [newline]) (s @ ext) \<and>
          \<not> re_search link_regex (s @ ext) \<and>
          re_search date_pattern (s @ ''_2023_07_04.'' @ ext))
    \<and> (\<forall>s. re_search link_regex (s @ ''mp3''))"
proof -
  obtain p where p: "extract_program w soup_page (urljoin w url href) = Inr p"
    using extract_program_total by blast
  have l: "link p = []"
    using no_match_no_link [OF assms(4)] p by (rule extract_program_no_link)
  then have "incomplete p" by (simp add: incomplete_def)
  then have "page_step w url page_link programs tr =
              (Inr programs,
               tr @ [Log INFO (''Parsing '' @ urljoin w url href), Request (urljoin w url href),
                     Log WARNING (''Cannot find all data for '' @ title p @ '' ('' @ urljoin w url href @ '')'')])"
    unfolding page_step_fetched [OF assms(1-3) p] by (simp add: keep_program_def cannot_find_def)
  with p l have 1: "\<exists>p. extract_program w soup_page (urljoin w url href) = Inr p \<and> link p = [] \<and>
            page_step w url page_link programs tr =
              (Inr programs,
               tr @ [Log INFO (''Parsing '' @ urljoin w url href), Request (urljoin w url href),
                     Log WARNING (''Cannot find all data for '' @ title p @ '' ('' @ urljoin w url href @ '')'')])"
    by blast
  have 2: "\<not> suffix ''mp3'' (s @ ext) \<and> \<not> suffix (''mp3'' @ [newline]) (s @ ext) \<and>
          \<not> re_search link_regex (s @ ext) \<and>
          re_search date_pattern (s @ ''_2023_07_04.'' @ ext)"
    if "ext \<in> {''MP3'', ''Mp3'', ''mP3''}" for s ext
  proof -
    from that have "ext \<in> {''MP3'', ''Mp3'', ''mP3'', ''mp3''}" by blast
    from uppercase_not_link [OF that] uppercase_date [OF this] show ?thesis by blast
  qed
  have 3: "re_search link_regex (s @ ''mp3'')" for s
    by (simp add: link_regex_iff suffix_def)
  show ?thesis
    by (intro conjI allI impI) (rule 1, (rule 2 [THEN conjunct1], assumption),
      (rule 2 [THEN conjunct2, THEN conjunct1], assumption),
      (rule 2 [THEN conjunct2, THEN conjunct2, THEN conjunct1], assumption),
      (rule 2 [THEN conjunct2, THEN conjunct2, THEN conjunct2], assumption), rule 3)
qed

lemma http_get_sample_3:
  "http_get (sample_world l) (detail_url ''3'') = Inr (sample_page ''mrx_2022_12_25.MP3'')"
  by (simp add: sample_world_def detail_url_def)

text \<open>The theorem at the sample page whose audio link ends in \<^verbatim>\<open>.MP3\<close>.\<close>

theorem link_regex_case_sensitive_witness:
  "el_attrs (anchor (detail_url ''3'')) ''href'' = Some (detail_url ''3'') \<and>
   sublist program_page (detail_url ''3'') \<and>
   http_get (sample_world []) (detail_url ''3'') = Inr (sample_page ''mrx_2022_12_25.MP3'') \<and>
   list_all (\<lambda>e. el_name e \<noteq> ''a'' \<or> el_attrs e ''href'' = Some (audio_url ''mrx_2022_12_25.MP3''))
     (sample_page ''mrx_2022_12_25.MP3'') \<and>
   \<not> suffix ''mp3'' (audio_url ''mrx_2022_12_25.MP3'') \<and>
   \<not> suffix (''mp3'' @ [newline]) (audio_url ''mrx_2022_12_25.MP3'') \<and>
   extract_program (sample_world []) (sample_page ''mrx_2022_12_25.MP3'') (detail_url ''3'')
     = Inr ((sample_program ''mrx_2022_12_25.MP3'')\<lparr>link := []\<rparr>) \<and>
   page_step (sample_world []) listing_url (anchor (detail_url ''3'')) [] [] =
     (Inr [], [Log INFO (''Parsing '' @ detail_url ''3''), Request (detail_url ''3''),
               Log WARNING (''Cannot find all data for Episode ('' @ detail_url ''3'' @ '')'')])"
proof -
  let ?w = "sample_world []"
  let ?f = "''mrx_2022_12_25.MP3''"
  have u: "audio_url ?f = ''http://example.org/audio/mrx_2022_12_25.'' @ ''MP3''"
    by (simp add: audio_url_def)
  have n: "\<not> suffix ''mp3'' (audio_url ?f)" "\<not> suffix (''mp3'' @ [newline]) (audio_url ?f)"
    "\<not> re_search link_regex (audio_url ?f)"
    unfolding u by (rule uppercase_not_link, simp)+
  have la: "list_all (\<lambda>e. el_name e \<noteq> ''a'' \<or> el_attrs e ''href'' = Some (audio_url ?f)) (sample_page ?f)"
    by (simp add: sample_page_def div_id_def anchor_def)
  have h: "\<forall>e \<in> set (sample_page ?f). el_name e = ''a'' \<longrightarrow>
             (\<forall>h. el_attrs e ''href'' = Some h \<longrightarrow>
                \<not> suffix ''mp3'' h \<and> \<not> suffix (''mp3'' @ [newline]) h)"
    using la n(1,2) by (auto simp: list_all_iff)
  note t = link_regex_case_sensitive [where w = ?w and url = listing_url
      and page_link = "anchor (detail_url ''3'')" and href = "detail_url ''3''"
      and soup_page = "sample_page ?f" and programs = "[]" and tr = "[]",
      OF sample_href sample_sublist sample_get [OF http_get_sample_3] h]
  have e: "extract_program ?w (sample_page ?f) (detail_url ''3'') = Inr ((sample_program ?f)\<lparr>link := []\<rparr>)"
    using n(3) by (rule extract_sample_page_no_link)
  from t [THEN conjunct1] e
  have s: "page_step ?w listing_url (anchor (detail_url ''3'')) [] [] =
     (Inr [], [Log INFO (''Parsing '' @ detail_url ''3''), Request (detail_url ''3''),
               Log WARNING (''Cannot find all data for Episode ('' @ detail_url ''3'' @ '')'')])"
    by (auto simp: sample_urljoin sample_program_def)
  from sample_href [of "detail_url ''3''"] sublist_detail_url [of "''3''"]
    http_get_sample_3 [of "[]"] la n(1,2) e s
  show ?thesis by blast
qed

text \<open>
  Claim C8. When the request for the listing page raises, or the request for a detail
  page the loop reaches raises, the run ends there: the failing request is the last one
  of the trace (it is not repeated and no further page is requested), no file is
  written, \<^verbatim>\<open>main\<close> logs the exception at level critical and returns, and the exit
  status is 0.
\<close>

theorem fetch_error_aborts_run:
  assumes "load_config env cf = Inr config" and "map_of config ''START_URL'' = Some url"
  shows "(\<forall>e. http_get w url = Inl e \<longrightarrow>
           main env cf w now fs =
             \<lparr>out_files = fs,
              out_trace = [Request url,
                           Log CRITICAL (''Error occurred during process : '' @ str_error e)],
              exit_status = 0\<rparr>)
    \<and> (\<forall>soup_main pre a rest ps tr href e.
          http_get w url = Inr soup_main \<and>
          find_all soup_main ''a'' (\<lambda>e. True) = pre @ a # rest \<and>
          page_links_loop w url pre [] [Request url] = (Inr ps, tr) \<and>
          el_attrs a ''href'' = Some href \<and>
          sublist program_page (urljoin w url href) \<and>
          http_get w (urljoin w url href) = Inl e \<longrightarrow>
          main env cf w now fs =
             \<lparr>out_files = fs,
              out_trace = tr @ [Log INFO (''Parsing '' @ urljoin w url href),
                                Request (urljoin w url href),
                                Log CRITICAL (''Error occurred during process : '' @ str_error e)],
              exit_status = 0\<rparr>)"
proof -
  have 1: "main env cf w now fs =
             \<lparr>out_files = fs,
              out_trace = [Request url,
                           Log CRITICAL (''Error occurred during process : '' @ str_error e)],
              exit_status = 0\<rparr>"
    if "http_get w url = Inl e" for e
    using main_fetch_error [OF assms get_programs_listing_fails [OF that]]
    by (simp add: critical_def)
  have 2: "main env cf w now fs =
             \<lparr>out_files = fs,
              out_trace = tr @ [Log INFO (''Parsing '' @ urljoin w url href),
                                Request (urljoin w url href),
                                Log CRITICAL (''Error occurred during process : '' @ str_error e)],
              exit_status = 0\<rparr>"
    if h: "http_get w url = Inr soup_main \<and>
          find_all soup_main ''a'' (\<lambda>e. True) = pre @ a # rest \<and>
          page_links_loop w url pre [] [Request url] = (Inr ps, tr) \<and>
          el_attrs a ''href'' = Some href \<and>
          sublist program_page (urljoin w url href) \<and>
          http_get w (urljoin w url href) = Inl e"
    for soup_main pre a rest ps tr href e
  proof -
    from h have s: "page_step w url a ps tr =
        (Inl e, tr @ [Log INFO (''Parsing '' @ urljoin w url href), Request (urljoin w url href)])"
      by (simp add: page_step_fetch_fails)
    from h have l: "page_links_loop w url pre [] [Request url] = (Inr ps, tr)" by simp
    have "page_links_loop w url (find_all soup_main ''a'' (\<lambda>e. True)) [] [Request url] =
        (Inl e, tr @ [Log INFO (''Parsing '' @ urljoin w url href), Request (urljoin w url href)])"
      using loop_stops_at_error [OF l s] h by simp
    from get_programs_loop_fails [OF _ this] h
    have "get_programs w url =
        (Inl e, tr @ [Log INFO (''Parsing '' @ urljoin w url href), Request (urljoin w url href)])"
      by simp
    from main_fetch_error [OF assms this] show ?thesis by (simp add: critical_def)
  qed
  show ?thesis by (intro conjI allI impI) (erule 1, erule 2)
qed

lemma load_sample_config_env:
  "load_config [''START_URL'' \<mapsto> ''http://down.example/liste.php''] sample_config =
     Inr [(''START_URL'', ''http://down.example/liste.php''), (''OUTPUT_FILE'', ''feed.xml''),
          (''PROGRAM_TITLE'', ''T''), (''PROGRAM_URL'', ''http://example.org/''), (''PROGRAM_DESC'', ''D'')]"
  by (simp add: load_config_def resolve_eq sample_config_def bind_def)

text \<open>
  The theorem at a sample listing whose second detail page cannot be fetched, and at a
  start URL that cannot be fetched.
\<close>

theorem fetch_error_aborts_run_witness:
  "load_config Map.empty sample_config =
     Inr [(''START_URL'', listing_url), (''OUTPUT_FILE'', ''feed.xml''),
          (''PROGRAM_TITLE'', ''T''), (''PROGRAM_URL'', ''http://example.org/''), (''PROGRAM_DESC'', ''D'')] \<and>
   http_get (sample_world [anchor (detail_url ''1''), anchor (detail_url ''5''), anchor (detail_url ''2'')])
     listing_url = Inr [anchor (detail_url ''1''), anchor (detail_url ''5''), anchor (detail_url ''2'')] \<and>
   http_get (sample_world [anchor (detail_url ''1''), anchor (detail_url ''5''), anchor (detail_url ''2'')])
     (detail_url ''5'') = Inl (RequestException ''connection refused'') \<and>
   main Map.empty sample_config
     (sample_world [anchor (detail_url ''1''), anchor (detail_url ''5''), anchor (detail_url ''2'')])
     sample_now Map.empty =
     \<lparr>out_files = Map.empty,
      out_trace = [Request listing_url,
                   Log INFO (''Parsing '' @ detail_url ''1''), Request (detail_url ''1''),
                   Log INFO (''Parsing '' @ detail_url ''5''), Request (detail_url ''5''),
                   Log CRITICAL ''Error occurred during process : connection refused''],
      exit_status = 0\<rparr> \<and>
   http_get (sample_world []) ''http://down.example/liste.php'' = Inl (RequestException ''connection refused'') \<and>
   main [''START_URL'' \<mapsto> ''http://down.example/liste.php''] sample_config (sample_world [])
     sample_now Map.empty =
     \<lparr>out_files = Map.empty,
      out_trace = [Request ''http://down.example/liste.php'',
                   Log CRITICAL ''Error occurred during process : connection refused''],
      exit_status = 0\<rparr>"
proof -
  let ?l = "[anchor (detail_url ''1''), anchor (detail_url ''5''), anchor (detail_url ''2'')]"
  let ?w = "sample_world ?l"
  have g: "http_get ?w listing_url = Inr ?l" by (rule sample_listing_get)
  have g5: "http_get ?w (detail_url ''5'') = Inl (RequestException ''connection refused'')"
    by (simp add: sample_world_def detail_url_def)
  have f: "find_all ?l ''a'' (\<lambda>e. True) = [anchor (detail_url ''1'')] @ anchor (detail_url ''5'') # [anchor (detail_url ''2'')]"
    by (simp add: find_all_def anchor_def)
  have d: "page_links_loop ?w listing_url [anchor (detail_url ''1'')] [] [Request listing_url]
     = (Inr [(sample_program ''mrx_2023_07_04.mp3'')\<lparr>date := Some ''2023-07-04''\<rparr>],
        [Request listing_url, Log INFO (''Parsing '' @ detail_url ''1''), Request (detail_url ''1'')])"
    by (simp add: sample_step_1)
  have m: "map_of [(''START_URL'', listing_url), (''OUTPUT_FILE'', ''feed.xml''),
          (''PROGRAM_TITLE'', ''T''), (''PROGRAM_URL'', ''http://example.org/''), (''PROGRAM_DESC'', ''D'')]
          ''START_URL'' = Some listing_url"
    by simp
  have h: "http_get ?w listing_url = Inr ?l \<and>
          find_all ?l ''a'' (\<lambda>e. True) = [anchor (detail_url ''1'')] @ anchor (detail_url ''5'') # [anchor (detail_url ''2'')] \<and>
          page_links_loop ?w listing_url [anchor (detail_url ''1'')] [] [Request listing_url] =
            (Inr [(sample_program ''mrx_2023_07_04.mp3'')\<lparr>date := Some ''2023-07-04''\<rparr>],
             [Request listing_url, Log INFO (''Parsing '' @ detail_url ''1''), Request (detail_url ''1'')]) \<and>
          el_attrs (anchor (detail_url ''5'')) ''href'' = Some (detail_url ''5'') \<and>
          sublist program_page (urljoin ?w listing_url (detail_url ''5'')) \<and>
          http_get ?w (urljoin ?w listing_url (detail_url ''5'')) = Inl (RequestException ''connection refused'')"
    using g f d sample_href sample_sublist sample_get [OF g5] by blast
  have r1: "main Map.empty sample_config ?w sample_now Map.empty =
     \<lparr>out_files = Map.empty,
      out_trace = [Request listing_url,
                   Log INFO (''Parsing '' @ detail_url ''1''), Request (detail_url ''1''),
                   Log INFO (''Parsing '' @ detail_url ''5''), Request (detail_url ''5''),
                   Log CRITICAL ''Error occurred during process : connection refused''],
      exit_status = 0\<rparr>"
    using fetch_error_aborts_run [OF load_sample_config m, where w = ?w and now = sample_now
        and fs = Map.empty, THEN conjunct2, rule_format, OF h]
    by (simp add: sample_urljoin)
  have m2: "map_of [(''START_URL'', ''http://down.example/liste.php''), (''OUTPUT_FILE'', ''feed.xml''),
          (''PROGRAM_TITLE'', ''T''), (''PROGRAM_URL'', ''http://example.org/''), (''PROGRAM_DESC'', ''D'')]
          ''START_URL'' = Some ''http://down.example/liste.php''"
    by simp
  have g0: "http_get (sample_world []) ''http://down.example/liste.php'' = Inl (RequestException ''connection refused'')"
    by (simp add: sample_world_def detail_url_def)
  have r2: "main [''START_URL'' \<mapsto> ''http://down.example/liste.php''] sample_config (sample_world [])
     sample_now Map.empty =
     \<lparr>out_files = Map.empty,
      out_trace = [Request ''http://down.example/liste.php'',
                   Log CRITICAL ''Error occurred during process : connection refused''],
      exit_status = 0\<rparr>"
    using fetch_error_aborts_run [OF load_sample_config_env m2, where w = "sample_world []"
        and now = sample_now and fs = Map.empty, THEN conjunct1, rule_format, OF g0]
    by simp
  from load_sample_config g g5 r1 g0 r2 show ?thesis by blast
qed

section \<open>Properties of the serializer\<close>

lemma is_digit_iff: "is_digit c \<longleftrightarrow> 48 \<le> (of_char c :: nat) \<and> (of_char c :: nat) \<le> 57"
  by (simp add: is_digit_def less_eq_char_def)

lemma in_range_iff:
  "in_range lo hi c \<longleftrightarrow> (of_char lo :: nat) \<le> of_char c \<and> (of_char c :: nat) \<le> of_char hi"
  by (simp add: in_range_def less_eq_char_def)

lemma char_eqI: "(of_char c :: nat) = of_char d \<Longrightarrow> c = d"
  by simp

lemma digit_val_char:
  assumes "is_digit c" and "digit_val c = n" and "(of_char d :: nat) = 48 + n"
  shows "c = d"
proof (rule char_eqI)
  from assms show "(of_char c :: nat) = of_char d"
    unfolding is_digit_iff digit_val_def by arith
qed

lemma ymd_string_iff:
  "ymd_string s \<longleftrightarrow>
     (\<exists>a b c d e f g h. s = [a, b, c, d, CHR ''-'', e, f, CHR ''-'', g, h] \<and>
        is_digit a \<and> is_digit b \<and> is_digit c \<and> is_digit d \<and> is_digit e \<and> is_digit f \<and>
        is_digit g \<and> is_digit h)"
  unfolding ymd_string_def by (auto simp: list_all2_Cons1)

lemma parse_month_ok:
  assumes "is_digit e" "is_digit f" "1 \<le> 10 * digit_val e + digit_val f"
    "10 * digit_val e + digit_val f \<le> 12"
  shows "parse_month (e # f # rest) = Some (10 * digit_val e + digit_val f, rest)"
proof -
  have "digit_val e = 0 \<or> digit_val e = 1" using assms(4) by arith
  then show ?thesis
  proof
    assume z: "digit_val e = 0"
    with assms(1) have e: "e = CHR ''0''"
      by (rule digit_val_char) simp
    from z assms(2,3) have "in_range CHR ''1'' CHR ''9'' f"
      by (simp add: in_range_iff is_digit_iff digit_val_def)
    with e z show ?thesis by simp
  next
    assume o: "digit_val e = 1"
    with assms(1) have e: "e = CHR ''1''"
      by (rule digit_val_char) simp
    from o assms(2,4) have "in_range CHR ''0'' CHR ''2'' f"
      by (simp add: in_range_iff is_digit_iff digit_val_def)
    with e o show ?thesis by simp
  qed
qed

lemma parse_day_ok:
  assumes "is_digit g" "is_digit h" "1 \<le> 10 * digit_val g + digit_val h"
    "10 * digit_val g + digit_val h \<le> 31"
  shows "parse_day [g, h] = Some (10 * digit_val g + digit_val h, [])"
proof -
  have "digit_val g = 0 \<or> (digit_val g = 1 \<or> digit_val g = 2) \<or> digit_val g = 3"
    using assms(4) by arith
  then show ?thesis
  proof (elim disjE)
    assume 0: "digit_val g = 0"
    with assms(1) have g: "g = CHR ''0''"
      by (rule digit_val_char) simp
    from 0 assms(2,3) have "in_range CHR ''1'' CHR ''9'' h"
      by (simp add: in_range_iff is_digit_iff digit_val_def)
    with g 0 show ?thesis by (simp add: in_range_iff)
  next
    assume "digit_val g = 1"
    with assms(1) have g: "g = CHR ''1''"
      by (rule digit_val_char) simp
    with assms(2) show ?thesis by (simp add: in_range_iff)
  next
    assume "digit_val g = 2"
    with assms(1) have g: "g = CHR ''2''"
      by (rule digit_val_char) simp
    with assms(2) show ?thesis by (simp add: in_range_iff)
  next
    assume 3: "digit_val g = 3"
    with assms(1) have g: "g = CHR ''3''"
      by (rule digit_val_char) simp
    from 3 assms(2,4) have "in_range CHR ''0'' CHR ''1'' h"
      by (simp add: in_range_iff is_digit_iff digit_val_def)
    with g 3 show ?thesis by simp
  qed
qed

lemma days_in_month_le: "days_in_month y m \<le> 31"
  by (simp add: days_in_month_def)

lemma strptime_calendar_date:
  assumes "calendar_date s"
  shows "strptime (Some s) = Inr (midnight s)"
proof -
  from assms have y: "ymd_string s" by (simp add: calendar_date_def)
  then obtain a b c d e f g h where s: "s = [a, b, c, d, CHR ''-'', e, f, CHR ''-'', g, h]"
    and dg: "is_digit a" "is_digit b" "is_digit c" "is_digit d" "is_digit e" "is_digit f"
    "is_digit g" "is_digit h"
    unfolding ymd_string_iff by (elim exE conjE) (rule that)
  have yy: "ymd_year s = 1000 * digit_val a + 100 * digit_val b + 10 * digit_val c + digit_val d"
    by (simp add: ymd_year_def number_def s)
  have mm: "ymd_month s = 10 * digit_val e + digit_val f"
    by (simp add: ymd_month_def number_def s)
  have dd: "ymd_day s = 10 * digit_val g + digit_val h"
    by (simp add: ymd_day_def number_def s)
  from assms have v: "1 \<le> ymd_year s" "1 \<le> ymd_month s" "ymd_month s \<le> 12"
    "1 \<le> ymd_day s" "ymd_day s \<le> days_in_month (ymd_year s) (ymd_month s)"
    by (simp_all add: calendar_date_def)
  have d31: "ymd_day s \<le> 31" using v(5) days_in_month_le [of "ymd_year s" "ymd_month s"] by simp
  have py: "parse_year s = Some (ymd_year s, [CHR ''-'', e, f, CHR ''-'', g, h])"
    using dg unfolding yy by (simp add: s)
  have pm: "parse_month [e, f, CHR ''-'', g, h] = Some (ymd_month s, [CHR ''-'', g, h])"
    unfolding mm by (rule parse_month_ok [OF dg(5,6)]) (use v(2,3) mm in simp_all)
  have pd: "parse_day [g, h] = Some (ymd_day s, [])"
    unfolding dd by (rule parse_day_ok [OF dg(7,8)]) (use v(4) d31 dd in simp_all)
  have "match_ymd s = Some (ymd_year s, ymd_month s, ymd_day s, [])"
    unfolding match_ymd_def py by (simp add: pm pd del: parse_month.simps parse_day.simps)
  then show ?thesis using v by (simp add: strptime_def midnight_def)
qed

lemma strptime_None: "strptime None = Inl (TypeError ''strptime() argument 1 must be str, not None'')"
  by (simp add: strptime_def)

lemma strptime_error_kind:
  assumes "strptime x = Inl e"
  shows "e = TypeError ''strptime() argument 1 must be str, not None'' \<or> (\<exists>m. e = ValueError m)"
  using assms unfolding strptime_def
  by (auto split: option.splits prod.splits if_splits)

lemma strptime_Inr_dated: "strptime x = Inr dt \<Longrightarrow> \<exists>s. x = Some s"
  by (cases x) (simp_all add: strptime_None)

lemma rss_items_loop_Inl:
  "rss_items_loop items acc = Inl e \<Longrightarrow> \<exists>item \<in> set items. strptime (date item) = Inl e"
proof (induction items arbitrary: acc)
  case Nil
  then show ?case by simp
next
  case (Cons item rest)
  show ?case
  proof (cases "strptime (date item)")
    case (Inl e')
    with Cons.prems show ?thesis by (simp add: bind_def)
  next
    case (Inr dt)
    with Cons.prems Cons.IH show ?thesis by (auto simp: bind_def)
  qed
qed

lemma rss_items_loop_undated:
  "\<exists>item \<in> set items. date item = None \<Longrightarrow> \<exists>e. rss_items_loop items acc = Inl e"
proof (induction items arbitrary: acc)
  case Nil
  then show ?case by simp
next
  case (Cons item rest)
  show ?case
  proof (cases "strptime (date item)")
    case (Inl e')
    then show ?thesis by (simp add: bind_def)
  next
    case (Inr dt)
    then have "date item \<noteq> None" using strptime_Inr_dated by fastforce
    with Cons.prems have "\<exists>item \<in> set rest. date item = None" by auto
    from Cons.IH [OF this] Inr show ?thesis by (simp add: bind_def)
  qed
qed

lemma rss_items_loop_Inr:
  "rss_items_loop items acc = Inr r \<Longrightarrow>
     \<exists>r'. r = acc @ r' \<and>
       list_all2 (\<lambda>item i. item_title i = title item \<and> item_link i = link item \<and>
           item_description i = description item \<and> item_guid i = link item \<and>
           strptime (date item) = Inr (item_pubDate i)) items r'"
proof (induction items arbitrary: acc)
  case Nil
  then show ?case by simp
next
  case (Cons item rest)
  from Cons.prems obtain dt where dt: "strptime (date item) = Inr dt"
    and l: "rss_items_loop rest
         (acc @ [\<lparr>item_title = title item, item_link = link item,
                   item_description = description item, item_guid = link item,
                   item_pubDate = dt\<rparr>]) = Inr r"
    by (auto simp: bind_def split: sum.splits)
  from Cons.IH [OF l] obtain r' where r': "r = (acc @ [\<lparr>item_title = title item, item_link = link item,
                   item_description = description item, item_guid = link item,
                   item_pubDate = dt\<rparr>]) @ r'"
    and a: "list_all2 (\<lambda>item i. item_title i = title item \<and> item_link i = link item \<and>
           item_description i = description item \<and> item_guid i = link item \<and>
           strptime (date item) = Inr (item_pubDate i)) rest r'"
    by blast
  let ?i = "\<lparr>item_title = title item, item_link = link item,
                   item_description = description item, item_guid = link item,
                   item_pubDate = dt\<rparr>"
  have "r = acc @ (?i # r')" using r' by simp
  moreover have "list_all2 (\<lambda>item i. item_title i = title item \<and> item_link i = link item \<and>
           item_description i = description item \<and> item_guid i = link item \<and>
           strptime (date item) = Inr (item_pubDate i)) (item # rest) (?i # r')"
    using a dt by simp
  ultimately show ?case by blast
qed

lemma rss_items_loop_append:
  "rss_items_loop (xs @ ys) acc = bind (rss_items_loop xs acc) (rss_items_loop ys)"
  by (induction xs arbitrary: acc) (auto simp: bind_def split: sum.splits)

lemma rss_items_loop_total:
  "\<forall>q \<in> set items. \<exists>dt. strptime (date q) = Inr dt \<Longrightarrow> \<exists>r. rss_items_loop items acc = Inr r"
proof (induction items arbitrary: acc)
  case Nil
  then show ?case by simp
next
  case (Cons item rest)
  then obtain dt where "strptime (date item) = Inr dt" by auto
  moreover from Cons.prems have "\<forall>q \<in> set rest. \<exists>dt. strptime (date q) = Inr dt" by simp
  ultimately show ?case using Cons.IH by (simp add: bind_def)
qed


lemma main_serialize:
  assumes "load_config env cf = Inr config" and "map_of config ''START_URL'' = Some url"
    and "get_programs w url = (Inr items, tr)"
  shows "\<exists>t l d f. map_of config ''PROGRAM_TITLE'' = Some t \<and> map_of config ''PROGRAM_URL'' = Some l \<and>
           map_of config ''PROGRAM_DESC'' = Some d \<and> map_of config ''OUTPUT_FILE'' = Some f \<and>
           main env cf w now fs =
             (case build_rss_feed t l d items f now fs of
                Inl e \<Rightarrow> critical e fs tr
              | Inr fs' \<Rightarrow> \<lparr>out_files = fs', out_trace = tr, exit_status = 0\<rparr>)"
proof -
  from load_config_Inr [OF assms(1)] obtain v1 v2 v3 v4 v5 where
    c: "config = [(''START_URL'', v1), (''OUTPUT_FILE'', v2), (''PROGRAM_TITLE'', v3),
                     (''PROGRAM_URL'', v4), (''PROGRAM_DESC'', v5)]"
    by blast
  with assms(2) have u: "v1 = url" by simp
  have "main env cf w now fs =
             (case build_rss_feed v3 v4 v5 items v2 now fs of
                Inl e \<Rightarrow> critical e fs tr
              | Inr fs' \<Rightarrow> \<lparr>out_files = fs', out_trace = tr, exit_status = 0\<rparr>)"
    using assms(1,3) by (simp add: main_def c u getitem_def bind_def)
  then show ?thesis unfolding c by simp
qed

text \<open>
  Claim C2. A record list with an undated record makes \<^verbatim>\<open>build_rss_feed\<close> raise in its
  loop over the items, from \<^verbatim>\<open>strptime\<close>, before any file is opened; so a feed that is
  written holds dated records only. The exception is the \<^verbatim>\<open>TypeError\<close> of
  \<^verbatim>\<open>strptime(None, ...)\<close>, unless an earlier record's date string is refused first
  (a \<^verbatim>\<open>ValueError\<close>); it is that \<^verbatim>\<open>TypeError\<close> whenever the dates of the records
  before the undated one parse. When \<^verbatim>\<open>get_programs\<close> returns such a list, \<^verbatim>\<open>main\<close>
  ends in its exception handler and the files are as they were.
\<close>

theorem undated_record_crashes_serializer:
  assumes "\<exists>item \<in> set feed_items. date item = None"
  shows "(\<exists>e. build_rss_feed t l d feed_items filename now fs = Inl e \<and>
            (e = TypeError ''strptime() argument 1 must be str, not None'' \<or> (\<exists>m. e = ValueError m)))
    \<and> (\<forall>pre item rest.
          feed_items = pre @ item # rest \<and> date item = None \<and>
          (\<forall>q \<in> set pre. \<exists>dt. strptime (date q) = Inr dt) \<longrightarrow>
          build_rss_feed t l d feed_items filename now fs =
            Inl (TypeError ''strptime() argument 1 must be str, not None''))
    \<and> (\<forall>env cf config url w tr.
          load_config env cf = Inr config \<and> map_of config ''START_URL'' = Some url \<and>
          get_programs w url = (Inr feed_items, tr) \<longrightarrow>
          (\<exists>e. main env cf w now fs = critical e fs tr))"
proof -
  have fails: "\<exists>e. build_rss_feed t l d feed_items filename now fs = Inl e \<and>
            (e = TypeError ''strptime() argument 1 must be str, not None'' \<or> (\<exists>m. e = ValueError m))"
    for t l d filename
  proof -
    from rss_items_loop_undated [OF assms] obtain e where e: "rss_items_loop feed_items [] = Inl e"
      by blast
    from rss_items_loop_Inl [OF e] obtain item :: program where "strptime (date item) = Inl e" by blast
    from strptime_error_kind [OF this] e show ?thesis
      by (simp add: build_rss_feed_def bind_def)
  qed
  have 2: "build_rss_feed t l d feed_items filename now fs =
            Inl (TypeError ''strptime() argument 1 must be str, not None'')"
    if h: "feed_items = pre @ item # rest \<and> date item = None \<and>
          (\<forall>q \<in> set pre. \<exists>dt. strptime (date q) = Inr dt)" for pre item rest
  proof -
    from h rss_items_loop_total [of pre "[]"] obtain r where "rss_items_loop pre [] = Inr r"
      by blast
    with h have "rss_items_loop feed_items [] = Inl (TypeError ''strptime() argument 1 must be str, not None'')"
      by (simp add: rss_items_loop_append bind_def strptime_None)
    then show ?thesis by (simp add: build_rss_feed_def bind_def)
  qed
  have 3: "\<exists>e. main env cf w now fs = critical e fs tr"
    if h: "load_config env cf = Inr config \<and> map_of config ''START_URL'' = Some url \<and>
          get_programs w url = (Inr feed_items, tr)" for env cf config url w tr
  proof -
    from h have a: "load_config env cf = Inr config" "map_of config ''START_URL'' = Some url"
      "get_programs w url = (Inr feed_items, tr)" by simp_all
    from main_serialize [OF a, of now fs] obtain t' l' d' f' where
      m: "main env cf w now fs =
             (case build_rss_feed t' l' d' feed_items f' now fs of
                Inl e \<Rightarrow> critical e fs tr
              | Inr fs' \<Rightarrow> \<lparr>out_files = fs', out_trace = tr, exit_status = 0\<rparr>)"
      by blast
    from fails [of t' l' d' f'] obtain e where "build_rss_feed t' l' d' feed_items f' now fs = Inl e"
      by blast
    with m have "main env cf w now fs = critical e fs tr" by simp
    then show ?thesis by (rule exI)
  qed
  show ?thesis
    by (intro conjI allI impI) (rule fails, erule 2, erule 3)
qed




lemma decimal_small: "n < 10 \<Longrightarrow> decimal n = [digit_char n]"
  by simp

lemma sorted_programs_single: "sorted_programs [p] = Inr [p]"
  by (simp add: sorted_programs_def)

lemma sample_step_4:
  "page_step (sample_world l) u (anchor (detail_url ''4'')) programs tr =
     (Inr (programs @ [sample_program ''mrx_invalid.mp3'']),
      tr @ [Log INFO (''Parsing '' @ detail_url ''4''), Request (detail_url ''4''),
            Log WARNING (''Cannot determine date of Episode ('' @ detail_url ''4'' @ '')'')])"
proof -
  have r: "re_search link_regex (audio_url ''mrx_invalid.mp3'')"
    using link_regex_audio_mp3 [of "''mrx_invalid.''"] by simp
  have "\<not> re_search date_pattern (link (sample_program ''mrx_invalid.mp3''))"
    using date_search_invalid [of "''http://example.org/audio/mrx''"]
    by (simp add: sample_program_def audio_url_def date_search_def split: if_splits)
  from keep_program_undated [OF sample_program_complete this]
  show ?thesis
    unfolding page_step_fetched [OF sample_href sample_sublist sample_get [OF http_get_sample_4]
        extract_sample_page [OF r]]
    by (simp add: sample_urljoin sample_program_def)
qed

lemma get_programs_sample_4:
  "get_programs (sample_world [anchor (detail_url ''4'')]) listing_url =
     (Inr [sample_program ''mrx_invalid.mp3''],
      [Request listing_url, Log INFO (''Parsing '' @ detail_url ''4''), Request (detail_url ''4''),
       Log WARNING (''Cannot determine date of Episode ('' @ detail_url ''4'' @ '')''),
       Log INFO ''1 programs fetched''])"
proof -
  have f: "find_all [anchor (detail_url ''4'')] ''a'' (\<lambda>e. True) = [anchor (detail_url ''4'')]"
    by (simp add: find_all_def anchor_def)
  show ?thesis
    by (simp add: get_programs_def sample_listing_get f sample_step_4 sorted_programs_single
        digit_char_def)
qed

text \<open>
  The theorem at the record of the sample page whose link has no date: the one record
  \<^verbatim>\<open>get_programs\<close> returns for a listing with that page alone.
\<close>

theorem undated_record_crashes_serializer_witness:
  "date (sample_program ''mrx_invalid.mp3'') = None \<and>
   build_rss_feed ''T'' ''http://example.org/'' ''D'' [sample_program ''mrx_invalid.mp3'']
     ''feed.xml'' sample_now Map.empty =
       Inl (TypeError ''strptime() argument 1 must be str, not None'') \<and>
   get_programs (sample_world [anchor (detail_url ''4'')]) listing_url =
     (Inr [sample_program ''mrx_invalid.mp3''],
      [Request listing_url, Log INFO (''Parsing '' @ detail_url ''4''), Request (detail_url ''4''),
       Log WARNING (''Cannot determine date of Episode ('' @ detail_url ''4'' @ '')''),
       Log INFO ''1 programs fetched'']) \<and>
   main Map.empty sample_config (sample_world [anchor (detail_url ''4'')]) sample_now Map.empty =
     \<lparr>out_files = Map.empty,
      out_trace = [Request listing_url, Log INFO (''Parsing '' @ detail_url ''4''),
                   Request (detail_url ''4''),
                   Log WARNING (''Cannot determine date of Episode ('' @ detail_url ''4'' @ '')''),
                   Log INFO ''1 programs fetched'',
                   Log CRITICAL ''Error occurred during process : strptime() argument 1 must be str, not None''],
      exit_status = 0\<rparr>"
proof -
  let ?p = "sample_program ''mrx_invalid.mp3''"
  have d: "date ?p = None" by (simp add: sample_program_def)
  then have h: "\<exists>item \<in> set [?p]. date item = None" by simp
  have pre: "[?p] = [] @ ?p # [] \<and> date ?p = None \<and>
          (\<forall>q \<in> set ([] :: program list). \<exists>dt. strptime (date q) = Inr dt)"
    using d by simp
  note t = undated_record_crashes_serializer [OF h, where now = sample_now and fs = Map.empty]
  have b: "build_rss_feed t l d' [?p] f sample_now Map.empty =
       Inl (TypeError ''strptime() argument 1 must be str, not None'')" for t l d' f
    using t [THEN conjunct2, THEN conjunct1, rule_format, OF pre] .
  have m: "map_of [(''START_URL'', listing_url), (''OUTPUT_FILE'', ''feed.xml''),
          (''PROGRAM_TITLE'', ''T''), (''PROGRAM_URL'', ''http://example.org/''), (''PROGRAM_DESC'', ''D'')]
          ''START_URL'' = Some listing_url"
    by simp
  from main_serialize [OF load_sample_config m get_programs_sample_4, of sample_now Map.empty]
  have "main Map.empty sample_config (sample_world [anchor (detail_url ''4'')]) sample_now Map.empty =
     critical (TypeError ''strptime() argument 1 must be str, not None'') Map.empty
       [Request listing_url, Log INFO (''Parsing '' @ detail_url ''4''), Request (detail_url ''4''),
        Log WARNING (''Cannot determine date of Episode ('' @ detail_url ''4'' @ '')''),
        Log INFO ''1 programs fetched'']"
    by (auto simp: b)
  with d b get_programs_sample_4 show ?thesis by (simp add: critical_def)
qed

lemma calendar_date_samples:
  "calendar_date ''2023-07-04''" "calendar_date ''2023-01-01''"
  by (simp_all add: calendar_date_def ymd_string_def is_digit_def ymd_year_def ymd_month_def
      ymd_day_def number_def digit_val_def days_in_month_def)

lemma midnight_samples:
  "midnight ''2023-07-04'' = \<lparr>dt_year = 2023, dt_month = 7, dt_day = 4, dt_hour = 0, dt_minute = 0, dt_second = 0\<rparr>"
  "midnight ''2023-01-01'' = \<lparr>dt_year = 2023, dt_month = 1, dt_day = 1, dt_hour = 0, dt_minute = 0, dt_second = 0\<rparr>"
  by (simp_all add: midnight_def ymd_year_def ymd_month_def ymd_day_def number_def digit_val_def)


section \<open>Properties of the sort\<close>

lemma digit_val_less: "is_digit c \<Longrightarrow> is_digit d \<Longrightarrow> digit_val c < digit_val d \<longleftrightarrow> c < d"
  unfolding is_digit_iff digit_val_def less_char_def by arith

lemma digit_val_eq: "is_digit c \<Longrightarrow> is_digit d \<Longrightarrow> digit_val c = digit_val d \<longleftrightarrow> c = d"
proof
  assume d: "is_digit c" "is_digit d" and "digit_val c = digit_val d"
  then have "(of_char c :: nat) = of_char d"
    unfolding is_digit_iff digit_val_def by arith
  then show "c = d" by (rule char_eqI)
qed simp

lemma digit_val_le9: "is_digit c \<Longrightarrow> digit_val c \<le> 9"
  unfolding is_digit_iff digit_val_def by arith

lemma horner_order:
  assumes "length xs = length ys" and "list_all is_digit xs" and "list_all is_digit ys"
  shows "(foldl (\<lambda>n c. 10 * n + digit_val c) n xs < foldl (\<lambda>n c. 10 * n + digit_val c) m ys
            \<longleftrightarrow> n < m \<or> n = m \<and> xs < ys)
       \<and> (foldl (\<lambda>n c. 10 * n + digit_val c) n xs = foldl (\<lambda>n c. 10 * n + digit_val c) m ys
            \<longleftrightarrow> n = m \<and> xs = ys)"
  using assms
proof (induction xs ys arbitrary: n m rule: list_induct2)
  case Nil
  then show ?case by simp
next
  case (Cons x xs y ys)
  from Cons.prems have dx: "is_digit x" and dy: "is_digit y"
    and r: "list_all is_digit xs" "list_all is_digit ys" by simp_all
  have bx: "digit_val x \<le> 9" and by': "digit_val y \<le> 9"
    using dx dy by (simp_all add: digit_val_le9)
  have "10 * n + digit_val x < 10 * m + digit_val y \<longleftrightarrow>
          n < m \<or> n = m \<and> digit_val x < digit_val y"
    using bx by' by arith
  then have l: "10 * n + digit_val x < 10 * m + digit_val y \<longleftrightarrow> n < m \<or> n = m \<and> x < y"
    by (simp add: digit_val_less [OF dx dy])
  have "10 * n + digit_val x = 10 * m + digit_val y \<longleftrightarrow> n = m \<and> digit_val x = digit_val y"
    using bx by' by arith
  then have e: "10 * n + digit_val x = 10 * m + digit_val y \<longleftrightarrow> n = m \<and> x = y"
    by (simp add: digit_val_eq [OF dx dy])
  from Cons.IH [OF r, of "10 * n + digit_val x" "10 * m + digit_val y"]
  show ?case unfolding foldl_Cons l e by auto
qed

lemma number_less:
  "length xs = length ys \<Longrightarrow> list_all is_digit xs \<Longrightarrow> list_all is_digit ys \<Longrightarrow>
   number xs < number ys \<longleftrightarrow> xs < ys"
  using horner_order [of xs ys 0 0] by (simp add: number_def)

lemma number_eq:
  "length xs = length ys \<Longrightarrow> list_all is_digit xs \<Longrightarrow> list_all is_digit ys \<Longrightarrow>
   number xs = number ys \<longleftrightarrow> xs = ys"
  using horner_order [of xs ys 0 0] by (simp add: number_def)

lemma less_append_same_length:
  "length xs = length ys \<Longrightarrow> xs @ us < ys @ vs \<longleftrightarrow> xs < ys \<or> xs = ys \<and> us < vs"
  by (induction xs ys rule: list_induct2) auto

lemma ymd_string_parts:
  assumes "ymd_string s"
  shows "\<exists>y m d. s = y @ CHR ''-'' # m @ CHR ''-'' # d \<and>
           length y = 4 \<and> length m = 2 \<and> length d = 2 \<and>
           list_all is_digit y \<and> list_all is_digit m \<and> list_all is_digit d \<and>
           ymd_year s = number y \<and> ymd_month s = number m \<and> ymd_day s = number d"
proof -
  from assms obtain a b c d e f g h where s: "s = [a, b, c, d, CHR ''-'', e, f, CHR ''-'', g, h]"
    and dg: "is_digit a" "is_digit b" "is_digit c" "is_digit d" "is_digit e" "is_digit f"
    "is_digit g" "is_digit h"
    unfolding ymd_string_iff by (elim exE conjE) (rule that)
  have "s = [a, b, c, d] @ CHR ''-'' # [e, f] @ CHR ''-'' # [g, h] \<and>
           length [a, b, c, d] = 4 \<and> length [e, f] = 2 \<and> length [g, h] = 2 \<and>
           list_all is_digit [a, b, c, d] \<and> list_all is_digit [e, f] \<and> list_all is_digit [g, h] \<and>
           ymd_year s = number [a, b, c, d] \<and> ymd_month s = number [e, f] \<and> ymd_day s = number [g, h]"
    using dg by (simp add: s ymd_year_def ymd_month_def ymd_day_def)
  then show ?thesis by blast
qed

lemma ymd_less_iff_earlier:
  assumes "ymd_string s" and "ymd_string t"
  shows "s < t \<longleftrightarrow> earlier s t"
proof -
  from ymd_string_parts [OF assms(1)] obtain y m d where
    s: "s = y @ CHR ''-'' # m @ CHR ''-'' # d" and
    ls: "length y = 4" "length m = 2" "length d = 2" and
    ds: "list_all is_digit y" "list_all is_digit m" "list_all is_digit d" and
    ns: "ymd_year s = number y" "ymd_month s = number m" "ymd_day s = number d"
    by (elim exE conjE)
  from ymd_string_parts [OF assms(2)] obtain y' m' d' where
    t: "t = y' @ CHR ''-'' # m' @ CHR ''-'' # d'" and
    lt: "length y' = 4" "length m' = 2" "length d' = 2" and
    dt: "list_all is_digit y'" "list_all is_digit m'" "list_all is_digit d'" and
    nt: "ymd_year t = number y'" "ymd_month t = number m'" "ymd_day t = number d'"
    by (elim exE conjE)
  have ly: "length y = length y'" and lm: "length m = length m'" and ld: "length d = length d'"
    using ls lt by simp_all
  have "s < t \<longleftrightarrow> y < y' \<or> y = y' \<and> (m < m' \<or> m = m' \<and> d < d')"
    unfolding s t by (simp add: less_append_same_length [OF ly] less_append_same_length [OF lm])
  also have "\<dots> \<longleftrightarrow> earlier s t"
    unfolding earlier_def ns nt
    by (simp add: number_less [OF ly ds(1) dt(1)] number_eq [OF ly ds(1) dt(1)]
        number_less [OF lm ds(2) dt(2)] number_eq [OF lm ds(2) dt(2)]
        number_less [OF ld ds(3) dt(3)])
  finally show ?thesis .
qed

lemma sorted_programs_dated:
  assumes "\<forall>p \<in> set programs. date p \<noteq> None"
  shows "sorted_programs programs = Inr (rev (sort_key date (rev programs)))"
  using assms by (auto simp: sorted_programs_def list_ex_iff)

lemma sort_key_strict:
  assumes "distinct (map f xs)"
  shows "sorted_wrt (\<lambda>x y. f x < f y) (sort_key f xs)"
proof -
  have "mset (map f (sort_key f xs)) = mset (map f xs)" by simp
  then have "distinct (map f (sort_key f xs))"
    using assms mset_eq_imp_distinct_iff by blast
  moreover have "sorted (map f (sort_key f xs))" by (rule sorted_sort_key)
  ultimately have "sorted_wrt (<) (map f (sort_key f xs))" by (simp add: strict_sorted_iff)
  then show ?thesis by (simp add: sorted_wrt_map)
qed

lemma get_programs_sorted:
  assumes "http_get w url = Inr soup_main"
    and "page_links_loop w url (find_all soup_main ''a'' (\<lambda>e. True)) [] [Request url] = (Inr programs, tr)"
  shows "fst (get_programs w url) = sorted_programs programs"
  using assms by (simp add: get_programs_def)

text \<open>
  Claim C5. For records whose dates are distinct strings of the form \<^verbatim>\<open>YYYY-MM-DD\<close>,
  the sort of \<^verbatim>\<open>get_programs\<close> returns a permutation of the records in strictly
  descending order of the date strings, which is the order from the most recent day to
  the oldest: on such strings the lexicographic order is the chronological one. The
  sorted list is what \<^verbatim>\<open>get_programs\<close> returns.
\<close>

theorem sorted_programs_descending:
  assumes "\<forall>p \<in> set programs. \<exists>s. date p = Some s \<and> ymd_string s"
    and "distinct (map date programs)"
  shows "(\<exists>out. sorted_programs programs = Inr out \<and> mset out = mset programs \<and>
            sorted_wrt (\<lambda>p q. date q < date p) out \<and>
            sorted_wrt (\<lambda>p q. \<exists>s t. date p = Some s \<and> date q = Some t \<and> earlier t s) out)
    \<and> (\<forall>s t. ymd_string s \<and> ymd_string t \<longrightarrow> (s < t \<longleftrightarrow> earlier s t))
    \<and> (\<forall>w url soup_main tr.
          http_get w url = Inr soup_main \<and>
          page_links_loop w url (find_all soup_main ''a'' (\<lambda>e. True)) [] [Request url]
            = (Inr programs, tr) \<longrightarrow>
          fst (get_programs w url) = sorted_programs programs)"
proof -
  let ?out = "rev (sort_key date (rev programs))"
  have "\<forall>p \<in> set programs. date p \<noteq> None" using assms(1) by auto
  then have 1: "sorted_programs programs = Inr ?out" by (rule sorted_programs_dated)
  have 2: "mset ?out = mset programs" by simp
  have "distinct (map date (rev programs))" using assms(2) by (simp add: rev_map [symmetric])
  then have "sorted_wrt (\<lambda>p q. date p < date q) (sort_key date (rev programs))"
    by (rule sort_key_strict)
  then have 3: "sorted_wrt (\<lambda>p q. date q < date p) ?out" by (simp add: sorted_wrt_rev)
  have 4: "sorted_wrt (\<lambda>p q. \<exists>s t. date p = Some s \<and> date q = Some t \<and> earlier t s) ?out"
  proof (rule sorted_wrt_mono_rel [OF _ 3])
    fix p q :: program
    assume "p \<in> set ?out" "q \<in> set ?out" and l: "date q < date p"
    then have "p \<in> set programs" "q \<in> set programs" by simp_all
    with assms(1) obtain s t where s: "date p = Some s" "ymd_string s"
      and t: "date q = Some t" "ymd_string t" by blast
    from l s(1) t(1) have "t < s" by simp
    then have "earlier t s" using ymd_less_iff_earlier [OF t(2) s(2)] by simp
    with s(1) t(1) show "\<exists>s t. date p = Some s \<and> date q = Some t \<and> earlier t s" by blast
  qed
  have a: "\<exists>out. sorted_programs programs = Inr out \<and> mset out = mset programs \<and>
            sorted_wrt (\<lambda>p q. date q < date p) out \<and>
            sorted_wrt (\<lambda>p q. \<exists>s t. date p = Some s \<and> date q = Some t \<and> earlier t s) out"
    using 1 2 3 4 by blast
  have b: "s < t \<longleftrightarrow> earlier s t" if "ymd_string s \<and> ymd_string t" for s t
    using that ymd_less_iff_earlier by blast
  have c: "fst (get_programs w url) = sorted_programs programs"
    if "http_get w url = Inr soup_main \<and>
          page_links_loop w url (find_all soup_main ''a'' (\<lambda>e. True)) [] [Request url]
            = (Inr programs, tr)" for w url soup_main tr
    using that get_programs_sorted by blast
  show ?thesis
    by (intro conjI allI impI) (rule a, erule b, erule c)
qed

lemma ymd_string_samples: "ymd_string ''2023-07-04''" "ymd_string ''2023-01-01''"
  by (simp_all add: ymd_string_def is_digit_def)

lemma sorted_programs_unchanged_example:
  "sorted_programs [dated_program f ''2023-07-04'', dated_program g ''2023-01-01'']
     = Inr [dated_program f ''2023-07-04'', dated_program g ''2023-01-01'']"
  by (simp add: sorted_programs_def dated_program_def sort_key_def insort_key.simps)

text \<open>
  The theorem at the two dates of the claim: \<^verbatim>\<open>2023-01-01\<close> before \<^verbatim>\<open>2023-07-04\<close> is
  reordered (and the other order is left as it is, by the lemma above).
\<close>

theorem sorted_programs_descending_witness:
  "date (dated_program ''a.mp3'' ''2023-01-01'') = Some ''2023-01-01'' \<and> ymd_string ''2023-01-01'' \<and>
   date (dated_program ''b.mp3'' ''2023-07-04'') = Some ''2023-07-04'' \<and> ymd_string ''2023-07-04'' \<and>
   distinct (map date [dated_program ''a.mp3'' ''2023-01-01'', dated_program ''b.mp3'' ''2023-07-04'']) \<and>
   sorted_programs [dated_program ''a.mp3'' ''2023-01-01'', dated_program ''b.mp3'' ''2023-07-04'']
     = Inr [dated_program ''b.mp3'' ''2023-07-04'', dated_program ''a.mp3'' ''2023-01-01''] \<and>
   sorted_wrt (\<lambda>p q. date q < date p)
     [dated_program ''b.mp3'' ''2023-07-04'', dated_program ''a.mp3'' ''2023-01-01''] \<and>
   ''2023-01-01'' < ''2023-07-04'' \<and> earlier ''2023-01-01'' ''2023-07-04''"
proof -
  let ?a = "dated_program ''a.mp3'' ''2023-01-01''" and ?b = "dated_program ''b.mp3'' ''2023-07-04''"
  have d: "date ?a = Some ''2023-01-01''" "date ?b = Some ''2023-07-04''"
    by (simp_all add: dated_program_def)
  have h1: "\<forall>p \<in> set [?a, ?b]. \<exists>s. date p = Some s \<and> ymd_string s"
    using d ymd_string_samples by simp
  have h2: "distinct (map date [?a, ?b])" using d by simp
  note t = sorted_programs_descending [OF h1 h2]
  have e: "sorted_programs [?a, ?b] = Inr [?b, ?a]"
    by (simp add: sorted_programs_def dated_program_def sort_key_def insort_key.simps)
  from t [THEN conjunct1] e have s: "sorted_wrt (\<lambda>p q. date q < date p) [?b, ?a]" by auto
  have l: "''2023-01-01'' < ''2023-07-04''" by simp
  then have "earlier ''2023-01-01'' ''2023-07-04''"
    using t [THEN conjunct2, THEN conjunct1, rule_format, of "''2023-01-01''" "''2023-07-04''"]
      ymd_string_samples by simp
  with d h2 e s l ymd_string_samples show ?thesis by simp
qed

section \<open>End to end\<close>

text \<open>
  A listing with two detail pages, one complete and one without a description: the feed
  written has exactly one item, that of the complete page, with the link as guid.
\<close>

lemma get_programs_sample_1_2:
  "get_programs (sample_world [anchor (detail_url ''1''), anchor (detail_url ''2'')]) listing_url =
     (Inr [dated_program ''mrx_2023_07_04.mp3'' ''2023-07-04''],
      [Request listing_url,
       Log INFO (''Parsing '' @ detail_url ''1''), Request (detail_url ''1''),
       Log INFO (''Parsing '' @ detail_url ''2''), Request (detail_url ''2''),
       Log WARNING (''Cannot find all data for Episode ('' @ detail_url ''2'' @ '')''),
       Log INFO ''1 programs fetched''])"
proof -
  have f: "find_all [anchor (detail_url ''1''), anchor (detail_url ''2'')] ''a'' (\<lambda>e. True) =
      [anchor (detail_url ''1''), anchor (detail_url ''2'')]"
    by (simp add: find_all_def anchor_def)
  show ?thesis
    by (simp add: get_programs_def sample_listing_get f sample_step_1 sample_step_2
        sorted_programs_single digit_char_def dated_program_def)
qed

lemma build_rss_feed_sample:
  "build_rss_feed t l d [dated_program f ''2023-07-04''] out now fs =
     Inr (fs(out \<mapsto> \<lparr>rss_title = t, rss_link = l, rss_description = d, rss_lastBuildDate = now,
        rss_items = [\<lparr>item_title = ''Episode'', item_link = audio_url f,
            item_description = ''About the episode'', item_guid = audio_url f,
            item_pubDate = \<lparr>dt_year = 2023, dt_month = 7, dt_day = 4,
                             dt_hour = 0, dt_minute = 0, dt_second = 0\<rparr>\<rparr>]\<rparr>))"
  using strptime_calendar_date [OF calendar_date_samples(1)]
  by (simp add: build_rss_feed_def bind_def dated_program_def sample_program_def midnight_samples)

lemma end_to_end_sample:
  "main Map.empty sample_config
     (sample_world [anchor (detail_url ''1''), anchor (detail_url ''2'')]) sample_now Map.empty =
     \<lparr>out_files = [''feed.xml'' \<mapsto>
        \<lparr>rss_title = ''T'', rss_link = ''http://example.org/'', rss_description = ''D'',
         rss_lastBuildDate = sample_now,
         rss_items = [\<lparr>item_title = ''Episode'', item_link = audio_url ''mrx_2023_07_04.mp3'',
            item_description = ''About the episode'', item_guid = audio_url ''mrx_2023_07_04.mp3'',
            item_pubDate = \<lparr>dt_year = 2023, dt_month = 7, dt_day = 4,
                             dt_hour = 0, dt_minute = 0, dt_second = 0\<rparr>\<rparr>]\<rparr>],
      out_trace = [Request listing_url,
       Log INFO (''Parsing '' @ detail_url ''1''), Request (detail_url ''1''),
       Log INFO (''Parsing '' @ detail_url ''2''), Request (detail_url ''2''),
       Log WARNING (''Cannot find all data for Episode ('' @ detail_url ''2'' @ '')''),
       Log INFO ''1 programs fetched''],
      exit_status = 0\<rparr>"
proof -
  have m: "map_of [(''START_URL'', listing_url), (''OUTPUT_FILE'', ''feed.xml''),
          (''PROGRAM_TITLE'', ''T''), (''PROGRAM_URL'', ''http://example.org/''), (''PROGRAM_DESC'', ''D'')]
          ''START_URL'' = Some listing_url"
    by simp
  from main_serialize [OF load_sample_config m get_programs_sample_1_2, of sample_now Map.empty]
  show ?thesis by (auto simp: build_rss_feed_sample)
qed

text \<open>
  Two or more records, one of them undated, never reach the serializer: the sort at the
  end of \<^verbatim>\<open>get_programs\<close> raises first.
\<close>

lemma sorted_programs_undated:
  assumes "2 \<le> length programs" and "\<exists>p \<in> set programs. date p = None"
  shows "\<exists>m. sorted_programs programs = Inl (TypeError m)"
  using assms by (auto simp: sorted_programs_def list_ex_iff)

lemma get_programs_sample_1_4:
  "\<exists>m. get_programs (sample_world [anchor (detail_url ''1''), anchor (detail_url ''4'')]) listing_url =
     (Inl (TypeError m),
      [Request listing_url,
       Log INFO (''Parsing '' @ detail_url ''1''), Request (detail_url ''1''),
       Log INFO (''Parsing '' @ detail_url ''4''), Request (detail_url ''4''),
       Log WARNING (''Cannot determine date of Episode ('' @ detail_url ''4'' @ '')''),
       Log INFO ''2 programs fetched''])"
proof -
  have f: "find_all [anchor (detail_url ''1''), anchor (detail_url ''4'')] ''a'' (\<lambda>e. True) =
      [anchor (detail_url ''1''), anchor (detail_url ''4'')]"
    by (simp add: find_all_def anchor_def)
  show ?thesis
    by (simp add: get_programs_def sample_listing_get f sample_step_1 sample_step_4
        sorted_programs_def digit_char_def sample_program_def)
qed

end
